(* ===== verification/Prelude.thy ===== *)
theory Prelude
  imports Main "HOL-Library.FSet" "HOL-Library.Finite_Map"
begin

text \<open>
  Shared vocabulary of the redis-lite development.

  \<^item> Bytes are \<open>char\<close>s and every \<open>std::string\<close> and \<open>std::string_view\<close> is a HOL \<open>string\<close>;
    the two line-ending bytes and the single quote, which HOL string literals cannot hold,
    are the abbreviations \<open>CR\<close>, \<open>LF\<close> and \<open>QUOTE\<close>.
  \<^item> \<open>long long\<close> values are \<open>int\<close>s, and \<open>fits_llong\<close> is their range: signed overflow is
    undefined in C++, so the development proves that each operation stays in range instead
    of wrapping.
  \<^item> \<open>std::string_view::find\<close>, the C-locale character classes and the small list facts that
    several components use.

  The named collection \<open>in_range\<close> gathers the facts that discharge range obligations.
\<close>

named_theorems in_range

subsection \<open>Bytes\<close>

abbreviation (input) CR :: char where "CR \<equiv> CHR 0x0D"
abbreviation (input) LF :: char where "LF \<equiv> CHR 0x0A"
abbreviation (input) SPACE :: char where "SPACE \<equiv> CHR 0x20"
abbreviation (input) QUOTE :: char where "QUOTE \<equiv> CHR 0x27"

abbreviation crlf :: string where "crlf \<equiv> [CR, LF]"

definition one_line :: "string \<Rightarrow> bool" where
  "one_line s \<longleftrightarrow> CR \<notin> set s \<and> LF \<notin> set s"

lemma one_line_Nil [simp]: "one_line []"
  by (simp add: one_line_def)

lemma one_line_Cons [simp]: "one_line (c # s) \<longleftrightarrow> c \<noteq> CR \<and> c \<noteq> LF \<and> one_line s"
  by (auto simp: one_line_def)

lemma one_line_append [simp]: "one_line (s @ t) \<longleftrightarrow> one_line s \<and> one_line t"
  by (auto simp: one_line_def)

text \<open>\<open>std::isspace\<close> in the C locale: space, and the five control characters 9 to 13.\<close>

definition is_space :: "char \<Rightarrow> bool" where
  "is_space c \<longleftrightarrow> c = SPACE \<or> (9 \<le> (of_char c :: int) \<and> (of_char c :: int) \<le> 13)"

definition is_digit :: "char \<Rightarrow> bool" where
  "is_digit c \<longleftrightarrow> 48 \<le> (of_char c :: int) \<and> (of_char c :: int) \<le> 57"

lemma is_space_bytes [simp]: "is_space SPACE" "is_space CR" "is_space LF"
  by (simp_all add: is_space_def)

lemma digit_not_space [simp]: "is_digit c \<Longrightarrow> \<not> is_space c"
  by (auto simp: is_digit_def is_space_def)

lemma digit_not_line_end [simp]: "is_digit c \<Longrightarrow> c \<noteq> CR \<and> c \<noteq> LF \<and> c \<noteq> SPACE"
  by (auto simp: is_digit_def)

subsection \<open>The range of long long\<close>

definition LLONG_MAX :: int where "LLONG_MAX = 9223372036854775807"
definition LLONG_MIN :: int where "LLONG_MIN = - 9223372036854775808"

definition fits_llong :: "int \<Rightarrow> bool" where
  "fits_llong n \<longleftrightarrow> LLONG_MIN \<le> n \<and> n \<le> LLONG_MAX"

lemmas llong_defs = LLONG_MAX_def LLONG_MIN_def fits_llong_def

lemma fits_llong_small [in_range]: "- 1000000000000 \<le> n \<Longrightarrow> n \<le> 1000000000000 \<Longrightarrow> fits_llong n"
  by (simp add: llong_defs)

lemma fits_llong_D: "fits_llong n \<Longrightarrow> LLONG_MIN \<le> n \<and> n \<le> LLONG_MAX"
  by (simp add: fits_llong_def)

subsection \<open>Searching a string\<close>

text \<open>
  \<open>std::string_view::find(needle, pos)\<close>: the least position at or after \<open>pos\<close> where the
  needle occurs, \<open>None\<close> for \<open>npos\<close>.
\<close>

fun find_sub :: "string \<Rightarrow> string \<Rightarrow> nat option" where
  "find_sub needle [] = (if needle = [] then Some 0 else None)"
| "find_sub needle (c # cs) =
     (if take (length needle) (c # cs) = needle then Some 0
      else map_option Suc (find_sub needle cs))"

definition sv_find :: "string \<Rightarrow> string \<Rightarrow> nat \<Rightarrow> nat option" where
  "sv_find hay needle pos =
     (if pos \<le> length hay then map_option ((+) pos) (find_sub needle (drop pos hay)) else None)"

definition sv_substr :: "string \<Rightarrow> nat \<Rightarrow> nat \<Rightarrow> string" where
  "sv_substr s pos count = take count (drop pos s)"

lemma find_sub_bound: "find_sub needle hay = Some i \<Longrightarrow> i + length needle \<le> length hay"
proof (induction hay arbitrary: i)
  case (Cons c cs)
  show ?case
  proof (cases "take (length needle) (c # cs) = needle")
    case True
    then have "length needle \<le> length (c # cs)"
      by (metis length_take min.cobounded1)
    with True Cons.prems show ?thesis by simp
  next
    case False
    with Cons show ?thesis by auto
  qed
qed (auto split: if_splits)

lemma find_sub_crlf_Cons:
  "find_sub crlf (c # cs) =
     (if c = CR \<and> cs \<noteq> [] \<and> hd cs = LF then Some 0 else map_option Suc (find_sub crlf cs))"
  by (cases cs) auto

text \<open>The first CRLF of a line that holds none of its own bytes ends that line.\<close>

lemma find_sub_crlf_line: "one_line s \<Longrightarrow> find_sub crlf (s @ CR # LF # rest) = Some (length s)"
  by (induction s) auto

lemma find_sub_crlf_at:
  "find_sub crlf hay = Some i \<Longrightarrow> hay ! i = CR \<and> hay ! Suc i = LF \<and> Suc i < length hay"
proof (induction hay arbitrary: i)
  case (Cons c cs)
  show ?case
  proof (cases "c = CR \<and> cs \<noteq> [] \<and> hd cs = LF")
    case True
    with Cons.prems show ?thesis
      by (cases cs) (auto simp: find_sub_crlf_Cons simp del: find_sub.simps)
  next
    case False
    with Cons show ?thesis
      by (auto simp: find_sub_crlf_Cons simp del: find_sub.simps)
  qed
qed simp

text \<open>Bytes after a match do not move it.\<close>

lemma find_sub_crlf_agree:
  "find_sub crlf hay = Some i \<Longrightarrow> take (i + 2) hay' = take (i + 2) hay \<Longrightarrow>
   find_sub crlf hay' = Some i"
proof (induction hay arbitrary: hay' i)
  case (Cons c cs)
  from find_sub_crlf_at [OF Cons.prems(1)] have bound: "Suc i < length (c # cs)" by simp
  from Cons.prems(2) obtain cs' where hay': "hay' = c # cs'"
    by (cases hay') auto
  show ?case
  proof (cases "c = CR \<and> cs \<noteq> [] \<and> hd cs = LF")
    case True
    with Cons.prems have "i = 0"
      by (simp add: find_sub_crlf_Cons del: find_sub.simps)
    with True Cons.prems hay' show ?thesis
      by (cases cs; cases cs') (auto simp: find_sub_crlf_Cons simp del: find_sub.simps)
  next
    case False
    then obtain j where j: "i = Suc j" "find_sub crlf cs = Some j"
      using Cons.prems by (auto simp: find_sub_crlf_Cons simp del: find_sub.simps split: if_splits)
    have agree: "take (j + 2) cs' = take (j + 2) cs"
      using Cons.prems(2) hay' j by simp
    have "find_sub crlf cs' = Some j"
      by (rule Cons.IH [OF j(2) agree])
    moreover have "\<not> (c = CR \<and> cs' \<noteq> [] \<and> hd cs' = LF)"
      using False agree by (cases cs; cases cs') auto
    ultimately show ?thesis
      using hay' j by (auto simp: find_sub_crlf_Cons simp del: find_sub.simps)
  qed
qed simp

subsection \<open>Small facts on lists and maps\<close>

lemma take_take_min_eq: "take n xs = take n ys \<Longrightarrow> m \<le> n \<Longrightarrow> take m xs = take m ys"
  by (metis min.absorb1 take_take)

lemma agree_nth: "take n xs = take n ys \<Longrightarrow> i < n \<Longrightarrow> i < length ys \<Longrightarrow> xs ! i = ys ! i"
  by (metis nth_take)

lemma agree_drop: "take n xs = take n ys \<Longrightarrow> take (n - m) (drop m xs) = take (n - m) (drop m ys)"
  by (metis drop_take)

lemma agree_length: "take n xs = take n ys \<Longrightarrow> n \<le> length ys \<Longrightarrow> n \<le> length xs"
  by (metis length_take min.absorb2 min.cobounded1)

lemma fmdrop_absent [simp]: "fmlookup m k = None \<Longrightarrow> fmdrop k m = m"
  by (rule fmap_ext) auto

lemma fminus_absent [simp]: "x |\<notin>| s \<Longrightarrow> s |-| {|x|} = s"
  by auto

end
