(* ===== verification/Numbers.thy ===== *)
theory Numbers
  imports Prelude
begin

text \<open>
  Decimal text of machine integers: \<open>std::to_string\<close> and \<open>std::to_chars\<close> one way,
  \<open>std::from_chars\<close> the other, and the helper \<open>to_integer\<close> that \<open>src/resp.cpp\<close> and
  \<open>src/commands.cpp\<close> each define over it. The lemmas give the round trip, the exact
  grammar that \<open>to_integer\<close> accepts, and the length bound behind the 24-byte buffer of
  \<open>append_number\<close> in \<open>src/persistence.cpp\<close>.
\<close>

subsection \<open>Writing\<close>

definition digit_char :: "int \<Rightarrow> char" where
  "digit_char n = char_of (48 + n)"

definition digit_val :: "char \<Rightarrow> int" where
  "digit_val c = of_char c - 48"

function magnitude :: "int \<Rightarrow> string" where
  "magnitude n =
     (if n < 10 then [digit_char n] else magnitude (n div 10) @ [digit_char (n mod 10)])"
  by pat_completeness auto
termination
  by (relation "measure nat") auto

declare magnitude.simps [simp del]

definition to_string :: "int \<Rightarrow> string" where
  "to_string n = (if n < 0 then ''-'' @ magnitude (- n) else magnitude n)"

subsection \<open>Reading\<close>

definition digits_value :: "string \<Rightarrow> int" where
  "digits_value ds = foldl (\<lambda>a c. 10 * a + digit_val c) 0 ds"

datatype errc = errc_none | invalid_argument | result_out_of_range

record from_chars_result =
  ec :: errc
  ptr :: nat

text \<open>
  \<open>std::from_chars(first, last, out)\<close> for \<open>long long\<close>, base 10: an optional minus sign and
  then as many digits as there are. It takes no plus sign and skips no white space. The
  second component is what it stores through \<open>out\<close>; on an error it stores nothing.
\<close>

definition from_chars :: "string \<Rightarrow> from_chars_result \<times> int option" where
  "from_chars text =
     (let negative = (text \<noteq> [] \<and> hd text = CHR ''-'');
          body = (if negative then tl text else text);
          ds = takeWhile is_digit body;
          number = (if negative then - digits_value ds else digits_value ds);
          stop = (if negative then Suc (length ds) else length ds)
      in if ds = [] then (\<lparr>ec = invalid_argument, ptr = 0\<rparr>, None)
         else if \<not> fits_llong number then (\<lparr>ec = result_out_of_range, ptr = stop\<rparr>, None)
         else (\<lparr>ec = errc_none, ptr = stop\<rparr>, Some number))"

text \<open>
  \<open>to_integer\<close>: \<open>None\<close> is the result \<open>false\<close>, \<open>Some n\<close> is \<open>true\<close> with \<open>n\<close> stored. No
  caller reads the output of a failed conversion.
\<close>

definition to_integer :: "string \<Rightarrow> int option" where
  "to_integer text =
     (case from_chars text of (result, out) \<Rightarrow>
        if ec result = errc_none \<and> ptr result = length text then out else None)"

subsection \<open>Digits\<close>

lemma digit_char_val [simp]: "0 \<le> n \<Longrightarrow> n < 10 \<Longrightarrow> digit_val (digit_char n) = n"
  by (simp add: digit_val_def digit_char_def)

lemma is_digit_digit_char [simp]: "0 \<le> n \<Longrightarrow> n < 10 \<Longrightarrow> is_digit (digit_char n)"
  by (simp add: is_digit_def digit_char_def)

lemma digits_value_snoc [simp]: "digits_value (ds @ [c]) = 10 * digits_value ds + digit_val c"
  by (simp add: digits_value_def)

lemma digits_value_Nil [simp]: "digits_value [] = 0"
  by (simp add: digits_value_def)

lemma magnitude_nonempty [simp]: "magnitude n \<noteq> []"
  by (subst magnitude.simps) simp

lemma magnitude_digits: "0 \<le> n \<Longrightarrow> \<forall>c \<in> set (magnitude n). is_digit c"
proof (induction n rule: magnitude.induct)
  case (1 n)
  then show ?case by (subst magnitude.simps) auto
qed

lemma digits_value_magnitude [simp]: "0 \<le> n \<Longrightarrow> digits_value (magnitude n) = n"
proof (induction n rule: magnitude.induct)
  case (1 n)
  show ?case
  proof (cases "n < 10")
    case True
    with 1 show ?thesis
      by (subst magnitude.simps) (simp add: digits_value_def)
  next
    case False
    with 1 show ?thesis by (subst magnitude.simps) simp
  qed
qed

lemma magnitude_length: "n < 10 ^ Suc k \<Longrightarrow> length (magnitude n) \<le> Suc k"
proof (induction k arbitrary: n)
  case 0
  then show ?case by (subst magnitude.simps) simp
next
  case (Suc k)
  then have "n div 10 < 10 ^ Suc k" by simp
  with Suc.IH have "length (magnitude (n div 10)) \<le> Suc k" .
  then show ?case by (subst magnitude.simps) simp
qed

subsection \<open>Printed integers\<close>

lemma hd_magnitude_not_minus [simp]: "0 \<le> n \<Longrightarrow> hd (magnitude n) \<noteq> CHR ''-''"
proof -
  assume "0 \<le> n"
  then have "is_digit (hd (magnitude n))"
    using magnitude_digits magnitude_nonempty by (meson hd_in_set)
  then show ?thesis by (auto simp: is_digit_def)
qed

lemma to_string_nonempty [simp]: "to_string n \<noteq> []"
  by (simp add: to_string_def)

lemma to_string_chars: "c \<in> set (to_string n) \<Longrightarrow> is_digit c \<or> c = CHR ''-''"
  using magnitude_digits [of n] magnitude_digits [of "- n"]
  by (auto simp: to_string_def split: if_splits)

lemma to_string_one_line [simp]: "one_line (to_string n)"
  using to_string_chars by (fastforce simp: one_line_def is_digit_def)

lemma to_string_no_space: "c \<in> set (to_string n) \<Longrightarrow> \<not> is_space c"
  using to_string_chars by (fastforce simp: is_digit_def is_space_def)

lemma takeWhile_digits_magnitude [simp]:
  "0 \<le> n \<Longrightarrow> takeWhile is_digit (magnitude n) = magnitude n"
  using magnitude_digits by (simp add: takeWhile_eq_all_conv)

text \<open>Reading back what was printed gives the number, whenever it is a \<open>long long\<close>.\<close>

lemma from_chars_to_string:
  assumes "fits_llong n"
  shows "from_chars (to_string n) = (\<lparr>ec = errc_none, ptr = length (to_string n)\<rparr>, Some n)"
proof (cases "n < 0")
  case True
  with assms show ?thesis by (simp add: to_string_def from_chars_def)
next
  case False
  with assms show ?thesis by (simp add: to_string_def from_chars_def)
qed

lemma to_integer_to_string [simp]: "fits_llong n \<Longrightarrow> to_integer (to_string n) = Some n"
  by (simp add: to_integer_def from_chars_to_string)

lemma to_string_inject: "fits_llong m \<Longrightarrow> fits_llong n \<Longrightarrow> to_string m = to_string n \<longleftrightarrow> m = n"
  by (metis option.inject to_integer_to_string)

lemma to_integer_fits [in_range]: "to_integer text = Some n \<Longrightarrow> fits_llong n"
  by (auto simp: to_integer_def from_chars_def Let_def split: if_splits)

text \<open>
  The grammar \<open>to_integer\<close> accepts: all of the text is an optional minus sign and at least
  one digit, and the number it denotes is in range.
\<close>

definition decimal_text :: "string \<Rightarrow> int \<Rightarrow> bool" where
  "decimal_text text n \<longleftrightarrow>
     (\<exists>ds. ds \<noteq> [] \<and> list_all is_digit ds \<and>
        (text = ds \<and> n = digits_value ds \<or>
         text = CHR ''-'' # ds \<and> n = - digits_value ds))"

lemma takeWhile_full: "length (takeWhile P xs) = length xs \<longleftrightarrow> list_all P xs"
  by (induction xs) auto

lemma takeWhile_list_all: "list_all P xs \<Longrightarrow> takeWhile P xs = xs"
  by (induction xs) auto

lemma minus_not_digit [simp]: "\<not> is_digit (CHR ''-'')"
  by (simp add: is_digit_def)

lemma to_integer_if_decimal:
  assumes "decimal_text text n" and "fits_llong n"
  shows "to_integer text = Some n"
proof -
  from assms(1) obtain ds where ds: "ds \<noteq> []" "list_all is_digit ds"
    and shape: "text = ds \<and> n = digits_value ds \<or> text = CHR ''-'' # ds \<and> n = - digits_value ds"
    by (auto simp: decimal_text_def)
  from ds have "is_digit (hd ds)" by (cases ds) auto
  then have "hd ds \<noteq> CHR ''-''" by auto
  with ds shape assms(2) show ?thesis
    by (auto simp: to_integer_def from_chars_def takeWhile_list_all)
qed

lemma decimal_if_to_integer:
  assumes "to_integer text = Some n"
  shows "decimal_text text n"
proof (cases "text \<noteq> [] \<and> hd text = CHR ''-''")
  case True
  then obtain body where body: "text = CHR ''-'' # body" by (cases "text") auto
  with assms have "list_all is_digit body" "body \<noteq> []" "n = - digits_value body"
    by (auto simp: to_integer_def from_chars_def Let_def takeWhile_full takeWhile_list_all
        split: if_splits)
  with body show ?thesis by (auto simp: decimal_text_def)
next
  case False
  with assms have "list_all is_digit text" "text \<noteq> []" "n = digits_value text"
    by (auto simp: to_integer_def from_chars_def Let_def takeWhile_full takeWhile_list_all
        split: if_splits)
  then show ?thesis by (auto simp: decimal_text_def)
qed

lemma to_string_length_llong:
  assumes "fits_llong n"
  shows "length (to_string n) \<le> 20"
proof -
  have "\<bar>n\<bar> < 10 ^ Suc 18"
    using assms by (auto simp: llong_defs)
  then have "length (magnitude \<bar>n\<bar>) \<le> Suc 18"
    by (rule magnitude_length)
  then show ?thesis by (auto simp: to_string_def)
qed

end
