(* ===== verification/Resp.thy ===== *)
theory Resp
  imports Numbers "HOL-Library.Word"
begin

text \<open>
  The RESP2 codec: \<open>src/resp.hpp\<close> and \<open>src/resp.cpp\<close>.

  \<^item> \<open>RespValue\<close> is the C++ struct, field by field: the unused fields of a value are there
    and keep their default, as in the source.
  \<^item> \<open>parse_value\<close> takes and returns what the source passes by reference: the position, the
    output value and the error text, on failing paths too.
  \<^item> The loop over the elements of an array is \<open>parse_elements\<close>, over the element parser; its
    counter runs from 0 to the announced count, so it needs no knowledge of the input to
    terminate, and the recursion of \<open>parse_value\<close> is bounded by the nesting depth.
  \<^item> \<open>serialize\<close> is the inverse direction, and the \<open>make_\<close> functions build values.
\<close>

subsection \<open>Values\<close>

datatype RespType = SimpleString | Error | Integer | BulkString | Array

datatype RespValue =
  RespValue (rv_type: RespType) (rv_string: string) (rv_integer: int)
    (rv_elements: "RespValue list") (rv_is_null: bool)

text \<open>A default-constructed value, with the initialisers of the struct.\<close>

definition default_value :: RespValue where
  "default_value = RespValue SimpleString [] 0 [] False"

text \<open>Assignments to one field of a value.\<close>

definition set_type :: "RespType \<Rightarrow> RespValue \<Rightarrow> RespValue" where
  "set_type t v = RespValue t (rv_string v) (rv_integer v) (rv_elements v) (rv_is_null v)"

definition set_string :: "string \<Rightarrow> RespValue \<Rightarrow> RespValue" where
  "set_string s v = RespValue (rv_type v) s (rv_integer v) (rv_elements v) (rv_is_null v)"

definition set_integer :: "int \<Rightarrow> RespValue \<Rightarrow> RespValue" where
  "set_integer n v = RespValue (rv_type v) (rv_string v) n (rv_elements v) (rv_is_null v)"

definition set_elements :: "RespValue list \<Rightarrow> RespValue \<Rightarrow> RespValue" where
  "set_elements es v = RespValue (rv_type v) (rv_string v) (rv_integer v) es (rv_is_null v)"

definition set_null :: "RespValue \<Rightarrow> RespValue" where
  "set_null v = RespValue (rv_type v) (rv_string v) (rv_integer v) (rv_elements v) True"

definition push_element :: "RespValue \<Rightarrow> RespValue \<Rightarrow> RespValue" where
  "push_element v e = set_elements (rv_elements v @ [e]) v"

lemmas field_defs = set_type_def set_string_def set_integer_def set_elements_def set_null_def
  push_element_def default_value_def

datatype ParseStatus = Ok | Incomplete | Malformed

record ParseResult =
  pr_status :: ParseStatus
  pr_value :: RespValue
  pr_consumed :: nat
  pr_error :: string

datatype LineStatus = LineOk | LineIncomplete | LineMalformed

subsection \<open>Lines\<close>

definition read_line :: "string \<Rightarrow> nat \<Rightarrow> string \<Rightarrow> LineStatus \<times> nat \<times> string" where
  "read_line input pos line =
     (case sv_find input crlf pos of
        None \<Rightarrow> (LineIncomplete, pos, line)
      | Some at \<Rightarrow>
          let line = sv_substr input pos (at - pos)
          in if CR \<in> set line \<or> LF \<in> set line then (LineMalformed, pos, line)
             else (LineOk, at + 2, line))"

subsection \<open>The parser\<close>

definition kMaxDepth :: int where "kMaxDepth = 128"

definition depth_error :: string where
  "depth_error = ''nesting is deeper than '' @ to_string kMaxDepth @ '' levels''"

text \<open>
  The \<open>$\<close> branch after its length line. \<open>needed\<close> is \<open>static_cast<std::size_t>(length) + 2\<close>,
  a 64-bit unsigned sum.
\<close>

definition bulk_needed :: "int \<Rightarrow> 64 word" where
  "bulk_needed len = word_of_int len + 2"

definition parse_bulk ::
  "string \<Rightarrow> nat \<Rightarrow> string \<Rightarrow> RespValue \<Rightarrow> string \<Rightarrow> ParseStatus \<times> nat \<times> RespValue \<times> string"
where
  "parse_bulk input pos line out error =
     (case to_integer line of
        None \<Rightarrow> (Malformed, pos, out, ''bulk string length is not a valid number'')
      | Some len \<Rightarrow>
          let out = set_type BulkString out in
          if len = -1 then (Ok, pos, set_null out, error)
          else if len < -1 then (Malformed, pos, out, ''negative bulk string length'')
          else let needed = bulk_needed len in
            if int (length input - pos) < uint needed then (Incomplete, pos, out, error)
            else let size = unat (word_of_int len :: 64 word) in
              if input ! (pos + size) \<noteq> CR \<or> input ! (pos + size + 1) \<noteq> LF
              then (Malformed, pos, out, ''bulk string is not terminated by CRLF'')
              else (Ok, pos + unat needed, set_string (sv_substr input pos size) out, error))"

text \<open>
  The \<open>for\<close> loop of the \<open>*\<close> branch, over the parser \<open>pv\<close> of one element, which takes the
  position, a fresh element and the error text.
\<close>

function parse_elements ::
  "(nat \<Rightarrow> RespValue \<Rightarrow> string \<Rightarrow> ParseStatus \<times> nat \<times> RespValue \<times> string) \<Rightarrow>
   int \<Rightarrow> int \<Rightarrow> nat \<Rightarrow> RespValue \<Rightarrow> string \<Rightarrow> ParseStatus \<times> nat \<times> RespValue \<times> string"
where
  "parse_elements pv i count pos out error =
     (if i < count then
        (case pv pos default_value error of (status, pos', element, error') \<Rightarrow>
           if status \<noteq> Ok then (status, pos', out, error')
           else parse_elements pv (i + 1) count pos' (push_element out element) error')
      else (Ok, pos, out, error))"
  by pat_completeness auto
termination
  by (relation "measure (\<lambda>(pv, i, count, pos, out, error). nat (count - i))") auto

declare parse_elements.simps [simp del]

text \<open>How much room the \<open>*\<close> branch reserves. Capacity is not observable in the result.\<close>

definition reservable :: "string \<Rightarrow> nat \<Rightarrow> int \<Rightarrow> nat" where
  "reservable input pos count = min (unat (word_of_int count :: 64 word)) (length input - pos)"

function parse_value ::
  "string \<Rightarrow> nat \<Rightarrow> RespValue \<Rightarrow> string \<Rightarrow> int \<Rightarrow> ParseStatus \<times> nat \<times> RespValue \<times> string"
where
  "parse_value input pos out error depth =
     (if depth > kMaxDepth then (Malformed, pos, out, depth_error)
      else if length input \<le> pos then (Incomplete, pos, out, error)
      else let prefix = input ! pos; pos = pos + 1 in
        if prefix \<notin> {CHR ''+'', CHR ''-'', CHR '':'', CHR ''$'', CHR ''*''}
        then (Malformed, pos, out, ''unknown RESP type byte'')
        else (case read_line input pos [] of (line_status, pos, line) \<Rightarrow>
          if line_status = LineIncomplete then (Incomplete, pos, out, error)
          else if line_status = LineMalformed
          then (Malformed, pos, out, ''line contains a stray CR or LF'')
          else if prefix = CHR ''+''
          then (Ok, pos, set_string line (set_type SimpleString out), error)
          else if prefix = CHR ''-''
          then (Ok, pos, set_string line (set_type Error out), error)
          else if prefix = CHR '':'' then
            (case to_integer line of
               None \<Rightarrow> (Malformed, pos, out, ''integer is not a valid number'')
             | Some number \<Rightarrow> (Ok, pos, set_integer number (set_type Integer out), error))
          else if prefix = CHR ''$'' then parse_bulk input pos line out error
          else
            (case to_integer line of
               None \<Rightarrow> (Malformed, pos, out, ''array length is not a valid number'')
             | Some count \<Rightarrow>
                 let out = set_type Array out in
                 if count = -1 then (Ok, pos, set_null out, error)
                 else if count < -1 then (Malformed, pos, out, ''negative array length'')
                 else parse_elements (\<lambda>p v e. parse_value input p v e (depth + 1))
                        0 count pos out error)))"
  by pat_completeness auto
termination
  by (relation "measure (\<lambda>(input, pos, out, error, depth). nat (kMaxDepth + 1 - depth))") auto

declare parse_value.simps [simp del]

definition parse :: "string \<Rightarrow> ParseResult" where
  "parse input =
     (case parse_value input 0 default_value [] 1 of (status, pos, v, error) \<Rightarrow>
        \<lparr>pr_status = status, pr_value = v,
         pr_consumed = (if status = Ok then pos else 0), pr_error = error\<rparr>)"

subsection \<open>The serializer\<close>

fun serialize :: "RespValue \<Rightarrow> string" where
  "serialize (RespValue t s n es is_null) =
     (case t of
        SimpleString \<Rightarrow> ''+'' @ s @ crlf
      | Error \<Rightarrow> ''-'' @ s @ crlf
      | Integer \<Rightarrow> '':'' @ to_string n @ crlf
      | BulkString \<Rightarrow>
          if is_null then ''$-1'' @ crlf
          else ''$'' @ to_string (int (length s)) @ crlf @ s @ crlf
      | Array \<Rightarrow>
          if is_null then ''*-1'' @ crlf
          else ''*'' @ to_string (int (length es)) @ crlf @ concat (map serialize es))"

subsection \<open>Constructors\<close>

definition make_simple_string :: "string \<Rightarrow> RespValue" where
  "make_simple_string text = set_string text (set_type SimpleString default_value)"

definition make_error :: "string \<Rightarrow> RespValue" where
  "make_error text = set_string text (set_type Error default_value)"

definition make_integer :: "int \<Rightarrow> RespValue" where
  "make_integer number = set_integer number (set_type Integer default_value)"

definition make_bulk_string :: "string \<Rightarrow> RespValue" where
  "make_bulk_string text = set_string text (set_type BulkString default_value)"

definition make_null_bulk_string :: RespValue where
  "make_null_bulk_string = set_null (set_type BulkString default_value)"

definition make_array :: "RespValue list \<Rightarrow> RespValue" where
  "make_array elements = set_elements elements (set_type Array default_value)"

lemmas make_defs = make_simple_string_def make_error_def make_integer_def make_bulk_string_def
  make_null_bulk_string_def make_array_def field_defs

end
