(* ===== verification/Store.thy ===== *)
theory Store
  imports Resp
begin

text \<open>
  The keyspace: \<open>Store\<close> of \<open>src/commands.hpp\<close> and the helpers of \<open>src/commands.cpp\<close> that
  the commands share.

  \<^item> \<open>Value\<close> is the \<open>std::variant\<close>, one constructor per alternative; an
    \<open>unordered_map\<close> is a finite map, an \<open>unordered_set\<close> a finite set, a \<open>deque\<close> a list.
  \<^item> A time point of \<open>steady_clock\<close> is its count of nanoseconds, an \<open>int\<close>. Each call of
    \<open>Clock::now()\<close> is a reading passed in by the caller.
  \<^item> \<open>read_typed\<close> and \<open>write_typed\<close> are templates over the alternative; here they take the
    accessor \<open>std::get_if<T>\<close>. The pointer they return is the value found there, and what the
    source writes through it is written back with \<open>put_value\<close>.
\<close>

datatype Value =
  StringValue string
| ListValue "string list"
| HashValue "(string, string) fmap"
| SetValue "string fset"

record Store =
  vals :: "(string, Value) fmap"
  expirations :: "(string, int) fmap"

definition empty_store :: Store where
  "empty_store = \<lparr>vals = fmempty, expirations = fmempty\<rparr>"

fun get_string :: "Value \<Rightarrow> string option" where
  "get_string (StringValue s) = Some s"
| "get_string _ = None"

fun get_list :: "Value \<Rightarrow> string list option" where
  "get_list (ListValue xs) = Some xs"
| "get_list _ = None"

fun get_hash :: "Value \<Rightarrow> (string, string) fmap option" where
  "get_hash (HashValue h) = Some h"
| "get_hash _ = None"

fun get_set :: "Value \<Rightarrow> string fset option" where
  "get_set (SetValue s) = Some s"
| "get_set _ = None"

lemma get_if_Some [simp]:
  "get_string v = Some s \<longleftrightarrow> v = StringValue s"
  "get_list v = Some xs \<longleftrightarrow> v = ListValue xs"
  "get_hash v = Some h \<longleftrightarrow> v = HashValue h"
  "get_set v = Some m \<longleftrightarrow> v = SetValue m"
  by (cases v; auto)+

definition put_value :: "string \<Rightarrow> Value \<Rightarrow> Store \<Rightarrow> Store" where
  "put_value key v store = store\<lparr>vals := fmupd key v (vals store)\<rparr>"

definition has_key :: "Store \<Rightarrow> string \<Rightarrow> bool" where
  "has_key store key \<longleftrightarrow> fmlookup (vals store) key \<noteq> None"

subsection \<open>Shared operations\<close>

definition remove_key :: "Store \<Rightarrow> string \<Rightarrow> Store" where
  "remove_key store key =
     store\<lparr>vals := fmdrop key (vals store), expirations := fmdrop key (expirations store)\<rparr>"

definition expire_if_due :: "int \<Rightarrow> Store \<Rightarrow> string \<Rightarrow> Store" where
  "expire_if_due now store key =
     (case fmlookup (expirations store) key of
        None \<Rightarrow> store
      | Some deadline \<Rightarrow> if now < deadline then store else remove_key store key)"

definition read_typed ::
  "(Value \<Rightarrow> 'a option) \<Rightarrow> int \<Rightarrow> Store \<Rightarrow> string \<Rightarrow> Store \<times> bool \<times> 'a option"
where
  "read_typed get_if now store key =
     (let store = expire_if_due now store key in
      case fmlookup (vals store) key of
        None \<Rightarrow> (store, False, None)
      | Some found \<Rightarrow>
          let typed = get_if found in (store, typed = None, typed))"

definition write_typed ::
  "(Value \<Rightarrow> 'a option) \<Rightarrow> Value \<Rightarrow> int \<Rightarrow> Store \<Rightarrow> string \<Rightarrow> Store \<times> 'a option"
where
  "write_typed get_if initial now store key =
     (let store = expire_if_due now store key;
          store = (if fmlookup (vals store) key = None then put_value key initial store else store)
      in (store, Option.bind (fmlookup (vals store) key) get_if))"

fun empty_container :: "Value \<Rightarrow> bool" where
  "empty_container (StringValue s) = False"
| "empty_container (ListValue xs) = (xs = [])"
| "empty_container (HashValue h) = (h = fmempty)"
| "empty_container (SetValue s) = (s = {||})"

definition drop_if_empty :: "Store \<Rightarrow> string \<Rightarrow> Store" where
  "drop_if_empty store key =
     (case fmlookup (vals store) key of
        None \<Rightarrow> store
      | Some found \<Rightarrow> if empty_container found then remove_key store key else store)"

definition absolute_index :: "int \<Rightarrow> int \<Rightarrow> int" where
  "absolute_index index len = (if index < 0 then index + len else index)"

end
