(* ===== verification/Log_Format.thy ===== *)
theory Log_Format
  imports Numbers
begin

text \<open>
  Writing the append-only log: the top half of \<open>src/persistence.cpp\<close>.

  A log is an \<open>std::ofstream*\<close>. \<open>None\<close> is the null pointer, which replaying passes, and
  \<open>Some contents\<close> an open file with the bytes written to it so far. A failing write is not
  modelled: the source ignores the state of the stream.
\<close>

type_synonym log = "string option"

definition append_number :: "string \<Rightarrow> int \<Rightarrow> string" where
  "append_number record number = record @ to_string number"

definition append_field :: "string \<Rightarrow> string \<Rightarrow> string" where
  "append_field record text = append_number record (int (length text)) @ [SPACE] @ text"

definition write_field :: "string \<Rightarrow> string \<Rightarrow> string" where
  "write_field contents text = contents @ to_string (int (length text)) @ [SPACE] @ text"

definition log_command :: "log \<Rightarrow> string \<Rightarrow> string list \<Rightarrow> log" where
  "log_command log verb arguments =
     (case log of
        None \<Rightarrow> None
      | Some contents \<Rightarrow>
          let record = foldl (\<lambda>record argument. append_field (record @ [SPACE]) argument)
                verb arguments @ [LF]
          in Some (contents @ record))"

text \<open>\<open>unix_now\<close> is the reading of the system clock that the call makes.\<close>

definition log_expire :: "int \<Rightarrow> log \<Rightarrow> string \<Rightarrow> int \<Rightarrow> log" where
  "log_expire unix_now log key seconds_from_now =
     (case log of
        None \<Rightarrow> None
      | Some contents \<Rightarrow>
          Some (write_field (contents @ ''EXPIRE '') key @
            [SPACE] @ to_string (unix_now + seconds_from_now) @ [LF]))"

subsection \<open>Records as values\<close>

text \<open>
  The records a log is made of, and the bytes of each. A logged command is its verb and its
  arguments; an \<open>EXPIRE\<close> record holds a key and a wall-clock deadline.
\<close>

datatype log_record = Command string "string list" | Deadline string int

definition field_bytes :: "string \<Rightarrow> string" where
  "field_bytes text = to_string (int (length text)) @ SPACE # text"

fun record_bytes :: "log_record \<Rightarrow> string" where
  "record_bytes (Command verb arguments) =
     verb @ concat (map (\<lambda>a. SPACE # field_bytes a) arguments) @ [LF]"
| "record_bytes (Deadline key deadline) =
     ''EXPIRE '' @ field_bytes key @ SPACE # to_string deadline @ [LF]"

definition add_record :: "log_record \<Rightarrow> log \<Rightarrow> log" where
  "add_record r = map_option (\<lambda>contents. contents @ record_bytes r)"

lemma append_field_eq [simp]: "append_field r text = r @ field_bytes text"
  by (simp add: append_field_def append_number_def field_bytes_def)

lemma write_field_eq [simp]: "write_field r text = r @ field_bytes text"
  by (simp add: write_field_def field_bytes_def)

lemma foldl_append_fields:
  "foldl (\<lambda>r a. append_field (r @ [SPACE]) a) acc args = acc @ concat (map (\<lambda>a. SPACE # field_bytes a) args)"
  by (induction args arbitrary: acc) auto

lemma log_command_eq: "log_command log verb args = add_record (Command verb args) log"
  by (cases log) (simp_all add: log_command_def add_record_def foldl_append_fields del: append_field_eq)

lemma log_expire_eq: "log_expire t log key s = add_record (Deadline key (t + s)) log"
  by (cases log) (simp_all add: log_expire_def add_record_def)

lemma add_record_None [simp]: "add_record r None = None"
  by (simp add: add_record_def)

end
