(* ===== verification/Commands.thy ===== *)
theory Commands
  imports Store Log_Format
begin

text \<open>
  The commands: \<open>execute_command\<close> of \<open>src/commands.cpp\<close>, one definition per branch.

  \<^item> A branch takes the readings of the clocks and of the iteration order that the source
    obtains from the library (\<open>Env\<close>), the elements of the request, the store and the log; it
    returns the reply, the store and the log.
  \<^item> \<open>clock1\<close> and \<open>clock2\<close> are the first and second \<open>Clock::now()\<close> of the command, \<open>unix_time\<close>
    its \<open>unix_now()\<close>; \<open>set_order\<close> is the order in which a range-for visits an
    \<open>unordered_set\<close>, which the standard leaves open.
  \<^item> The tick of \<open>steady_clock\<close> is a nanosecond and its representation a \<open>long long\<close>, as in
    libc++ and libstdc++.
\<close>

record Env =
  clock1 :: int
  clock2 :: int
  unix_time :: int
  set_order :: "string fset \<Rightarrow> string list"

type_synonym effect = "RespValue \<times> Store \<times> log"

subsection \<open>Helpers\<close>

definition toupper :: "char \<Rightarrow> char" where
  "toupper c =
     (let n = (of_char c :: int) in if 97 \<le> n \<and> n \<le> 122 then char_of (n - 32) else c)"

definition to_upper :: "string \<Rightarrow> string" where
  "to_upper text = map toupper text"

definition wrong_arity :: "string \<Rightarrow> RespValue" where
  "wrong_arity name =
     make_error (''ERR wrong number of arguments for '' @ [QUOTE] @ name @ [QUOTE] @ '' command'')"

definition wrong_type :: RespValue where
  "wrong_type = make_error ''WRONGTYPE Operation against a key holding the wrong kind of value''"

definition not_an_integer :: RespValue where
  "not_an_integer = make_error ''ERR value is not an integer or out of range''"

text \<open>\<open>request.elements[i].string\<close>\<close>

definition arg :: "RespValue list \<Rightarrow> nat \<Rightarrow> string" where
  "arg elements i = rv_string (elements ! i)"

subsection \<open>Time\<close>

definition ticks_per_second :: int where "ticks_per_second = 1000000000"
definition time_point_max :: int where "time_point_max = LLONG_MAX"

text \<open>\<open>duration_cast<seconds>\<close> truncates towards zero; \<open>ceil<seconds>\<close> rounds up.\<close>

definition whole_seconds :: "int \<Rightarrow> int" where
  "whole_seconds d = (if 0 \<le> d then d div ticks_per_second else - (- d div ticks_per_second))"

definition ceil_seconds :: "int \<Rightarrow> int" where
  "ceil_seconds d =
     (let t = whole_seconds d in if t * ticks_per_second < d then t + 1 else t)"

definition max_seconds :: "int \<Rightarrow> int" where
  "max_seconds now = whole_seconds (time_point_max - now)"

subsection \<open>Keys and expiration\<close>

definition cmd_ping :: "RespValue list \<Rightarrow> Store \<Rightarrow> log \<Rightarrow> effect" where
  "cmd_ping elements store log =
     (if length elements \<noteq> 1 then (wrong_arity ''ping'', store, log)
      else (make_simple_string ''PONG'', store, log))"

definition cmd_del :: "Env \<Rightarrow> RespValue list \<Rightarrow> Store \<Rightarrow> log \<Rightarrow> effect" where
  "cmd_del env elements store log =
     (if length elements \<noteq> 2 then (wrong_arity ''del'', store, log)
      else let key = arg elements 1;
               store = expire_if_due (clock1 env) store key;
               existed = has_key store key;
               store = remove_key store key
           in (make_integer (if existed then 1 else 0), store,
               if existed then log_command log ''DEL'' [key] else log))"

definition cmd_expire :: "Env \<Rightarrow> RespValue list \<Rightarrow> Store \<Rightarrow> log \<Rightarrow> effect" where
  "cmd_expire env elements store log =
     (if length elements \<noteq> 3 then (wrong_arity ''expire'', store, log)
      else (case to_integer (arg elements 2) of
          None \<Rightarrow> (not_an_integer, store, log)
        | Some seconds \<Rightarrow>
            let now = clock1 env in
            if seconds > max_seconds now then (not_an_integer, store, log)
            else let key = arg elements 1;
                     store = expire_if_due (clock2 env) store key
              in if \<not> has_key store key then (make_integer 0, store, log)
                 else if seconds \<le> 0
                 then (make_integer 1, remove_key store key, log_command log ''DEL'' [key])
                 else (make_integer 1,
                   store\<lparr>expirations :=
                     fmupd key (now + seconds * ticks_per_second) (expirations store)\<rparr>,
                   log_expire (unix_time env) log key seconds)))"

definition cmd_ttl :: "Env \<Rightarrow> RespValue list \<Rightarrow> Store \<Rightarrow> log \<Rightarrow> effect" where
  "cmd_ttl env elements store log =
     (if length elements \<noteq> 2 then (wrong_arity ''ttl'', store, log)
      else let key = arg elements 1;
               store = expire_if_due (clock1 env) store key
           in if \<not> has_key store key then (make_integer (- 2), store, log)
              else (case fmlookup (expirations store) key of
                  None \<Rightarrow> (make_integer (- 1), store, log)
                | Some deadline \<Rightarrow>
                    (make_integer (ceil_seconds (deadline - clock2 env)), store, log)))"

subsection \<open>Strings\<close>

definition cmd_set :: "RespValue list \<Rightarrow> Store \<Rightarrow> log \<Rightarrow> effect" where
  "cmd_set elements store log =
     (if length elements \<noteq> 3 then (wrong_arity ''set'', store, log)
      else let key = arg elements 1;
               store = put_value key (StringValue (arg elements 2)) store;
               store = store\<lparr>expirations := fmdrop key (expirations store)\<rparr>
           in (make_simple_string ''OK'', store, log_command log ''SET'' [key, arg elements 2]))"

definition cmd_get :: "Env \<Rightarrow> RespValue list \<Rightarrow> Store \<Rightarrow> log \<Rightarrow> effect" where
  "cmd_get env elements store log =
     (if length elements \<noteq> 2 then (wrong_arity ''get'', store, log)
      else (case read_typed get_string (clock1 env) store (arg elements 1) of
        (store, mismatch, found) \<Rightarrow>
          if mismatch then (wrong_type, store, log)
          else (case found of
              None \<Rightarrow> (make_null_bulk_string, store, log)
            | Some s \<Rightarrow> (make_bulk_string s, store, log))))"

subsection \<open>Lists\<close>

definition cmd_push :: "string \<Rightarrow> Env \<Rightarrow> RespValue list \<Rightarrow> Store \<Rightarrow> log \<Rightarrow> effect" where
  "cmd_push name env elements store log =
     (if length elements \<noteq> 3
      then (wrong_arity (if name = ''LPUSH'' then ''lpush'' else ''rpush''), store, log)
      else let key = arg elements 1 in
        (case write_typed get_list (ListValue []) (clock1 env) store key of
          (store, found) \<Rightarrow>
            (case found of
                None \<Rightarrow> (wrong_type, store, log)
              | Some xs \<Rightarrow>
                  let xs = (if name = ''LPUSH'' then arg elements 2 # xs else xs @ [arg elements 2])
                  in (make_integer (int (length xs)), put_value key (ListValue xs) store,
                      log_command log name [key, arg elements 2]))))"

definition cmd_pop :: "string \<Rightarrow> Env \<Rightarrow> RespValue list \<Rightarrow> Store \<Rightarrow> log \<Rightarrow> effect" where
  "cmd_pop name env elements store log =
     (if length elements \<noteq> 2
      then (wrong_arity (if name = ''LPOP'' then ''lpop'' else ''rpop''), store, log)
      else let key = arg elements 1 in
        (case read_typed get_list (clock1 env) store key of
          (store, mismatch, found) \<Rightarrow>
            if mismatch then (wrong_type, store, log)
            else (case found of
                None \<Rightarrow> (make_null_bulk_string, store, log)
              | Some [] \<Rightarrow> (make_null_bulk_string, store, log)
              | Some (x # xs) \<Rightarrow>
                  let popped = (if name = ''LPOP'' then x else last (x # xs));
                      left = (if name = ''LPOP'' then xs else butlast (x # xs));
                      store = drop_if_empty (put_value key (ListValue left) store) key
                  in (make_bulk_string popped, store, log_command log name [key]))))"

definition cmd_llen :: "Env \<Rightarrow> RespValue list \<Rightarrow> Store \<Rightarrow> log \<Rightarrow> effect" where
  "cmd_llen env elements store log =
     (if length elements \<noteq> 2 then (wrong_arity ''llen'', store, log)
      else (case read_typed get_list (clock1 env) store (arg elements 1) of
        (store, mismatch, found) \<Rightarrow>
          if mismatch then (wrong_type, store, log)
          else (case found of
              None \<Rightarrow> (make_integer 0, store, log)
            | Some xs \<Rightarrow> (make_integer (int (length xs)), store, log))))"

text \<open>The bounds and the loop of \<open>LRANGE\<close>, for a list that exists.\<close>

definition range_start :: "int \<Rightarrow> int \<Rightarrow> int" where
  "range_start start len = max 0 (absolute_index start len)"

definition range_stop :: "int \<Rightarrow> int \<Rightarrow> int" where
  "range_stop stop len = min (len - 1) (absolute_index stop len)"

definition range_elements :: "string list \<Rightarrow> int \<Rightarrow> int \<Rightarrow> RespValue list" where
  "range_elements xs start stop =
     (let len = int (length xs) in
      map (\<lambda>i. make_bulk_string (xs ! nat i)) [range_start start len..range_stop stop len])"

definition cmd_lrange :: "Env \<Rightarrow> RespValue list \<Rightarrow> Store \<Rightarrow> log \<Rightarrow> effect" where
  "cmd_lrange env elements store log =
     (if length elements \<noteq> 4 then (wrong_arity ''lrange'', store, log)
      else (case (to_integer (arg elements 2), to_integer (arg elements 3)) of
          (Some start, Some stop) \<Rightarrow>
            (case read_typed get_list (clock1 env) store (arg elements 1) of
              (store, mismatch, found) \<Rightarrow>
                if mismatch then (wrong_type, store, log)
                else (case found of
                    None \<Rightarrow> (make_array [], store, log)
                  | Some xs \<Rightarrow> (make_array (range_elements xs start stop), store, log)))
        | _ \<Rightarrow> (not_an_integer, store, log)))"

subsection \<open>Hashes\<close>

definition cmd_hset :: "Env \<Rightarrow> RespValue list \<Rightarrow> Store \<Rightarrow> log \<Rightarrow> effect" where
  "cmd_hset env elements store log =
     (if length elements \<noteq> 4 then (wrong_arity ''hset'', store, log)
      else let key = arg elements 1; field = arg elements 2 in
        (case write_typed get_hash (HashValue fmempty) (clock1 env) store key of
          (store, found) \<Rightarrow>
            (case found of
                None \<Rightarrow> (wrong_type, store, log)
              | Some h \<Rightarrow>
                  let is_new = (fmlookup h field = None)
                  in (make_integer (if is_new then 1 else 0),
                      put_value key (HashValue (fmupd field (arg elements 3) h)) store,
                      log_command log ''HSET'' [key, field, arg elements 3]))))"

definition cmd_hget :: "Env \<Rightarrow> RespValue list \<Rightarrow> Store \<Rightarrow> log \<Rightarrow> effect" where
  "cmd_hget env elements store log =
     (if length elements \<noteq> 3 then (wrong_arity ''hget'', store, log)
      else (case read_typed get_hash (clock1 env) store (arg elements 1) of
        (store, mismatch, found) \<Rightarrow>
          if mismatch then (wrong_type, store, log)
          else (case found of
              None \<Rightarrow> (make_null_bulk_string, store, log)
            | Some h \<Rightarrow>
                (case fmlookup h (arg elements 2) of
                    None \<Rightarrow> (make_null_bulk_string, store, log)
                  | Some v \<Rightarrow> (make_bulk_string v, store, log)))))"

definition cmd_hdel :: "Env \<Rightarrow> RespValue list \<Rightarrow> Store \<Rightarrow> log \<Rightarrow> effect" where
  "cmd_hdel env elements store log =
     (if length elements \<noteq> 3 then (wrong_arity ''hdel'', store, log)
      else let key = arg elements 1 in
        (case read_typed get_hash (clock1 env) store key of
          (store, mismatch, found) \<Rightarrow>
            if mismatch then (wrong_type, store, log)
            else (case found of
                None \<Rightarrow> (make_integer 0, store, log)
              | Some h \<Rightarrow>
                  let removed = (fmlookup h (arg elements 2) \<noteq> None);
                      store = put_value key (HashValue (fmdrop (arg elements 2) h)) store
                  in if removed
                     then (make_integer 1, drop_if_empty store key,
                           log_command log ''HDEL'' [key, arg elements 2])
                     else (make_integer 0, store, log))))"

definition cmd_hexists :: "Env \<Rightarrow> RespValue list \<Rightarrow> Store \<Rightarrow> log \<Rightarrow> effect" where
  "cmd_hexists env elements store log =
     (if length elements \<noteq> 3 then (wrong_arity ''hexists'', store, log)
      else (case read_typed get_hash (clock1 env) store (arg elements 1) of
        (store, mismatch, found) \<Rightarrow>
          if mismatch then (wrong_type, store, log)
          else (case found of
              None \<Rightarrow> (make_integer 0, store, log)
            | Some h \<Rightarrow>
                (make_integer (if fmlookup h (arg elements 2) \<noteq> None then 1 else 0), store, log))))"

definition cmd_hlen :: "Env \<Rightarrow> RespValue list \<Rightarrow> Store \<Rightarrow> log \<Rightarrow> effect" where
  "cmd_hlen env elements store log =
     (if length elements \<noteq> 2 then (wrong_arity ''hlen'', store, log)
      else (case read_typed get_hash (clock1 env) store (arg elements 1) of
        (store, mismatch, found) \<Rightarrow>
          if mismatch then (wrong_type, store, log)
          else (case found of
              None \<Rightarrow> (make_integer 0, store, log)
            | Some h \<Rightarrow> (make_integer (int (fcard (fmdom h))), store, log))))"

subsection \<open>Sets\<close>

definition cmd_sadd :: "Env \<Rightarrow> RespValue list \<Rightarrow> Store \<Rightarrow> log \<Rightarrow> effect" where
  "cmd_sadd env elements store log =
     (if length elements \<noteq> 3 then (wrong_arity ''sadd'', store, log)
      else let key = arg elements 1 in
        (case write_typed get_set (SetValue {||}) (clock1 env) store key of
          (store, found) \<Rightarrow>
            (case found of
                None \<Rightarrow> (wrong_type, store, log)
              | Some s \<Rightarrow>
                  let added = (arg elements 2 |\<notin>| s)
                  in (make_integer (if added then 1 else 0),
                      put_value key (SetValue (finsert (arg elements 2) s)) store,
                      if added then log_command log ''SADD'' [key, arg elements 2] else log))))"

definition cmd_srem :: "Env \<Rightarrow> RespValue list \<Rightarrow> Store \<Rightarrow> log \<Rightarrow> effect" where
  "cmd_srem env elements store log =
     (if length elements \<noteq> 3 then (wrong_arity ''srem'', store, log)
      else let key = arg elements 1 in
        (case read_typed get_set (clock1 env) store key of
          (store, mismatch, found) \<Rightarrow>
            if mismatch then (wrong_type, store, log)
            else (case found of
                None \<Rightarrow> (make_integer 0, store, log)
              | Some s \<Rightarrow>
                  let removed = (arg elements 2 |\<in>| s);
                      store = put_value key (SetValue (s |-| {|arg elements 2|})) store
                  in if removed
                     then (make_integer 1, drop_if_empty store key,
                           log_command log ''SREM'' [key, arg elements 2])
                     else (make_integer 0, store, log))))"

definition cmd_sismember :: "Env \<Rightarrow> RespValue list \<Rightarrow> Store \<Rightarrow> log \<Rightarrow> effect" where
  "cmd_sismember env elements store log =
     (if length elements \<noteq> 3 then (wrong_arity ''sismember'', store, log)
      else (case read_typed get_set (clock1 env) store (arg elements 1) of
        (store, mismatch, found) \<Rightarrow>
          if mismatch then (wrong_type, store, log)
          else (case found of
              None \<Rightarrow> (make_integer 0, store, log)
            | Some s \<Rightarrow> (make_integer (if arg elements 2 |\<in>| s then 1 else 0), store, log))))"

definition cmd_scard :: "Env \<Rightarrow> RespValue list \<Rightarrow> Store \<Rightarrow> log \<Rightarrow> effect" where
  "cmd_scard env elements store log =
     (if length elements \<noteq> 2 then (wrong_arity ''scard'', store, log)
      else (case read_typed get_set (clock1 env) store (arg elements 1) of
        (store, mismatch, found) \<Rightarrow>
          if mismatch then (wrong_type, store, log)
          else (case found of
              None \<Rightarrow> (make_integer 0, store, log)
            | Some s \<Rightarrow> (make_integer (int (fcard s)), store, log))))"

definition cmd_smembers :: "Env \<Rightarrow> RespValue list \<Rightarrow> Store \<Rightarrow> log \<Rightarrow> effect" where
  "cmd_smembers env elements store log =
     (if length elements \<noteq> 2 then (wrong_arity ''smembers'', store, log)
      else (case read_typed get_set (clock1 env) store (arg elements 1) of
        (store, mismatch, found) \<Rightarrow>
          if mismatch then (wrong_type, store, log)
          else (case found of
              None \<Rightarrow> (make_array [], store, log)
            | Some s \<Rightarrow> (make_array (map make_bulk_string (set_order env s)), store, log))))"

subsection \<open>Dispatch\<close>

definition unknown_command :: "RespValue list \<Rightarrow> Store \<Rightarrow> log \<Rightarrow> effect" where
  "unknown_command elements store log =
     (make_error (''ERR unknown command '' @ [QUOTE] @ arg elements 0 @ [QUOTE]), store, log)"

definition dispatch :: "string \<Rightarrow> Env \<Rightarrow> RespValue list \<Rightarrow> Store \<Rightarrow> log \<Rightarrow> effect" where
  "dispatch name env elements store log =
     (if name = ''PING'' then cmd_ping elements store log
      else if name = ''DEL'' then cmd_del env elements store log
      else if name = ''EXPIRE'' then cmd_expire env elements store log
      else if name = ''TTL'' then cmd_ttl env elements store log
      else if name = ''SET'' then cmd_set elements store log
      else if name = ''GET'' then cmd_get env elements store log
      else if name = ''LPUSH'' \<or> name = ''RPUSH'' then cmd_push name env elements store log
      else if name = ''LPOP'' \<or> name = ''RPOP'' then cmd_pop name env elements store log
      else if name = ''LLEN'' then cmd_llen env elements store log
      else if name = ''LRANGE'' then cmd_lrange env elements store log
      else if name = ''HSET'' then cmd_hset env elements store log
      else if name = ''HGET'' then cmd_hget env elements store log
      else if name = ''HDEL'' then cmd_hdel env elements store log
      else if name = ''HEXISTS'' then cmd_hexists env elements store log
      else if name = ''HLEN'' then cmd_hlen env elements store log
      else if name = ''SADD'' then cmd_sadd env elements store log
      else if name = ''SREM'' then cmd_srem env elements store log
      else if name = ''SISMEMBER'' then cmd_sismember env elements store log
      else if name = ''SCARD'' then cmd_scard env elements store log
      else if name = ''SMEMBERS'' then cmd_smembers env elements store log
      else unknown_command elements store log)"

definition bad_request :: RespValue where
  "bad_request = make_error ''ERR expected a non-empty array of bulk strings''"

definition execute_command :: "Env \<Rightarrow> RespValue \<Rightarrow> Store \<Rightarrow> log \<Rightarrow> effect" where
  "execute_command env request store log =
     (if rv_type request \<noteq> Array \<or> rv_is_null request \<or> rv_elements request = []
      then (bad_request, store, log)
      else if list_ex (\<lambda>e. rv_type e \<noteq> BulkString \<or> rv_is_null e) (rv_elements request)
      then (bad_request, store, log)
      else dispatch (to_upper (arg (rv_elements request) 0)) env (rv_elements request) store log)"

end
