(* ===== verification/Keyspace_Spec.thy ===== *)
theory Keyspace_Spec
  imports Commands
begin

text \<open>
  What the commands promise, without maps of deadlines, pointers or lazy clean-up.

  \<^item> A request is decoded to a \<open>command\<close>, or to the error it is answered with.
  \<^item> The abstract keyspace gives every key an \<open>entry\<close>: absent, or a value with an optional
    deadline. \<open>live now\<close> is the entry as a client may see it at a time.
  \<^item> \<open>spec\<close> says for one command and the live entry of its key: the reply, the new entry and
    the log records. A missing key is an empty container, and an empty container is a
    missing key.

  The refinement theory shows that \<open>execute_command\<close> implements \<open>spec\<close>.
\<close>

subsection \<open>Commands\<close>

datatype side = LeftEnd | RightEnd

datatype command =
  Ping
| Del string
| Expire string int
| Ttl string
| Set string string
| Get string
| Push side string string
| Pop side string
| Llen string
| Lrange string int int
| Hset string string string
| Hget string string
| Hdel string string
| Hexists string string
| Hlen string
| Sadd string string
| Srem string string
| Sismember string string
| Scard string
| Smembers string

fun key_of :: "command \<Rightarrow> string" where
  "key_of Ping = []"
| "key_of (Del k) = k"
| "key_of (Expire k s) = k"
| "key_of (Ttl k) = k"
| "key_of (Set k v) = k"
| "key_of (Get k) = k"
| "key_of (Push d k x) = k"
| "key_of (Pop d k) = k"
| "key_of (Llen k) = k"
| "key_of (Lrange k i j) = k"
| "key_of (Hset k f v) = k"
| "key_of (Hget k f) = k"
| "key_of (Hdel k f) = k"
| "key_of (Hexists k f) = k"
| "key_of (Hlen k) = k"
| "key_of (Sadd k m) = k"
| "key_of (Srem k m) = k"
| "key_of (Sismember k m) = k"
| "key_of (Scard k) = k"
| "key_of (Smembers k) = k"

text \<open>The verbs and the arity each takes, the verb included.\<close>

definition arity_of :: "string \<Rightarrow> nat option" where
  "arity_of = map_of
     [(''PING'', 1), (''DEL'', 2), (''EXPIRE'', 3), (''TTL'', 2), (''SET'', 3), (''GET'', 2),
      (''LPUSH'', 3), (''RPUSH'', 3), (''LPOP'', 2), (''RPOP'', 2), (''LLEN'', 2),
      (''LRANGE'', 4), (''HSET'', 4), (''HGET'', 3), (''HDEL'', 3), (''HEXISTS'', 3),
      (''HLEN'', 2), (''SADD'', 3), (''SREM'', 3), (''SISMEMBER'', 3), (''SCARD'', 2),
      (''SMEMBERS'', 2)]"

definition to_lower :: "string \<Rightarrow> string" where
  "to_lower = map (\<lambda>c. let n = (of_char c :: int) in
     if 65 \<le> n \<and> n \<le> 90 then char_of (n + 32) else c)"

text \<open>A command of the right arity, from its upper-case verb and the words.\<close>

definition build :: "string \<Rightarrow> string list \<Rightarrow> RespValue + command" where
  "build name words =
     (if name = ''PING'' then Inr Ping
      else if name = ''DEL'' then Inr (Del (words ! 1))
      else if name = ''EXPIRE'' then
        (case to_integer (words ! 2) of
           None \<Rightarrow> Inl not_an_integer | Some s \<Rightarrow> Inr (Expire (words ! 1) s))
      else if name = ''TTL'' then Inr (Ttl (words ! 1))
      else if name = ''SET'' then Inr (Set (words ! 1) (words ! 2))
      else if name = ''GET'' then Inr (Get (words ! 1))
      else if name = ''LPUSH'' then Inr (Push LeftEnd (words ! 1) (words ! 2))
      else if name = ''RPUSH'' then Inr (Push RightEnd (words ! 1) (words ! 2))
      else if name = ''LPOP'' then Inr (Pop LeftEnd (words ! 1))
      else if name = ''RPOP'' then Inr (Pop RightEnd (words ! 1))
      else if name = ''LLEN'' then Inr (Llen (words ! 1))
      else if name = ''LRANGE'' then
        (case (to_integer (words ! 2), to_integer (words ! 3)) of
           (Some i, Some j) \<Rightarrow> Inr (Lrange (words ! 1) i j) | _ \<Rightarrow> Inl not_an_integer)
      else if name = ''HSET'' then Inr (Hset (words ! 1) (words ! 2) (words ! 3))
      else if name = ''HGET'' then Inr (Hget (words ! 1) (words ! 2))
      else if name = ''HDEL'' then Inr (Hdel (words ! 1) (words ! 2))
      else if name = ''HEXISTS'' then Inr (Hexists (words ! 1) (words ! 2))
      else if name = ''HLEN'' then Inr (Hlen (words ! 1))
      else if name = ''SADD'' then Inr (Sadd (words ! 1) (words ! 2))
      else if name = ''SREM'' then Inr (Srem (words ! 1) (words ! 2))
      else if name = ''SISMEMBER'' then Inr (Sismember (words ! 1) (words ! 2))
      else if name = ''SCARD'' then Inr (Scard (words ! 1))
      else Inr (Smembers (words ! 1)))"

definition decode :: "string list \<Rightarrow> RespValue + command" where
  "decode words =
     (case arity_of (to_upper (words ! 0)) of
        None \<Rightarrow> Inl (make_error (''ERR unknown command '' @ [QUOTE] @ words ! 0 @ [QUOTE]))
      | Some n \<Rightarrow>
          if length words \<noteq> n then Inl (wrong_arity (to_lower (to_upper (words ! 0))))
          else build (to_upper (words ! 0)) words)"

subsection \<open>Entries\<close>

type_synonym entry = "(Value \<times> int option) option"

definition live :: "int \<Rightarrow> entry \<Rightarrow> entry" where
  "live now e =
     (case e of
        Some (v, Some deadline) \<Rightarrow> if now < deadline then e else None
      | _ \<Rightarrow> e)"

text \<open>What an entry holds, read as a container of one kind: nothing if it is another kind.\<close>

definition contents :: "(Value \<Rightarrow> 'a option) \<Rightarrow> 'a \<Rightarrow> entry \<Rightarrow> 'a option" where
  "contents get_if nothing e = (case e of None \<Rightarrow> Some nothing | Some (v, d) \<Rightarrow> get_if v)"

definition deadline_of :: "entry \<Rightarrow> int option" where
  "deadline_of e = Option.bind e snd"

definition with_value :: "Value \<Rightarrow> entry \<Rightarrow> entry" where
  "with_value v e = (if empty_container v then None else Some (v, deadline_of e))"

fun push_side :: "side \<Rightarrow> 'a \<Rightarrow> 'a list \<Rightarrow> 'a list" where
  "push_side LeftEnd x xs = x # xs"
| "push_side RightEnd x xs = xs @ [x]"

fun pop_side :: "side \<Rightarrow> 'a list \<Rightarrow> 'a \<times> 'a list" where
  "pop_side LeftEnd xs = (hd xs, tl xs)"
| "pop_side RightEnd xs = (last xs, butlast xs)"

fun push_verb :: "side \<Rightarrow> string" where
  "push_verb LeftEnd = ''LPUSH''"
| "push_verb RightEnd = ''RPUSH''"

fun pop_verb :: "side \<Rightarrow> string" where
  "pop_verb LeftEnd = ''LPOP''"
| "pop_verb RightEnd = ''RPOP''"

text \<open>
  The range that \<open>LRANGE\<close> denotes: an index counts from the end when it is negative, and the
  list is cut to the positions from the first index to the second, both included.
\<close>

definition position :: "int \<Rightarrow> nat \<Rightarrow> int" where
  "position i n = (if i < 0 then int n + i else i)"

definition slice :: "'a list \<Rightarrow> int \<Rightarrow> int \<Rightarrow> 'a list" where
  "slice xs i j =
     (let i = position i (length xs); j = position j (length xs)
      in drop (nat i) (take (nat (j + 1)) xs))"

subsection \<open>The specification\<close>

definition flag :: "bool \<Rightarrow> RespValue" where
  "flag b = make_integer (if b then 1 else 0)"

fun spec :: "Env \<Rightarrow> command \<Rightarrow> entry \<Rightarrow> RespValue \<times> entry \<times> log_record list" where
  "spec env Ping e = (make_simple_string ''PONG'', e, [])"
| "spec env (Del k) e =
     (flag (e \<noteq> None), None, if e = None then [] else [Command ''DEL'' [k]])"
| "spec env (Expire k seconds) e =
     (if seconds > max_seconds (clock1 env) then (not_an_integer, e, [])
      else (case e of
          None \<Rightarrow> (flag False, None, [])
        | Some (v, d) \<Rightarrow>
            if seconds \<le> 0 then (flag True, None, [Command ''DEL'' [k]])
            else (flag True, Some (v, Some (clock1 env + seconds * ticks_per_second)),
                  [Deadline k (unix_time env + seconds)])))"
| "spec env (Ttl k) e =
     (make_integer (case e of
          None \<Rightarrow> - 2
        | Some (v, None) \<Rightarrow> - 1
        | Some (v, Some deadline) \<Rightarrow> ceil_seconds (deadline - clock2 env)), e, [])"
| "spec env (Set k s) e =
     (make_simple_string ''OK'', Some (StringValue s, None), [Command ''SET'' [k, s]])"
| "spec env (Get k) e =
     ((case e of
         None \<Rightarrow> make_null_bulk_string
       | Some (StringValue s, d) \<Rightarrow> make_bulk_string s
       | Some _ \<Rightarrow> wrong_type), e, [])"
| "spec env (Push d k x) e =
     (case contents get_list [] e of
        None \<Rightarrow> (wrong_type, e, [])
      | Some xs \<Rightarrow>
          (make_integer (1 + int (length xs)), with_value (ListValue (push_side d x xs)) e,
           [Command (push_verb d) [k, x]]))"
| "spec env (Pop d k) e =
     (case contents get_list [] e of
        None \<Rightarrow> (wrong_type, e, [])
      | Some xs \<Rightarrow>
          if xs = [] then (make_null_bulk_string, e, [])
          else (case pop_side d xs of (x, rest) \<Rightarrow>
            (make_bulk_string x, with_value (ListValue rest) e, [Command (pop_verb d) [k]])))"
| "spec env (Llen k) e =
     (case contents get_list [] e of
        None \<Rightarrow> (wrong_type, e, [])
      | Some xs \<Rightarrow> (make_integer (int (length xs)), e, []))"
| "spec env (Lrange k i j) e =
     (case contents get_list [] e of
        None \<Rightarrow> (wrong_type, e, [])
      | Some xs \<Rightarrow> (make_array (map make_bulk_string (slice xs i j)), e, []))"
| "spec env (Hset k f v) e =
     (case contents get_hash fmempty e of
        None \<Rightarrow> (wrong_type, e, [])
      | Some h \<Rightarrow>
          (flag (fmlookup h f = None), with_value (HashValue (fmupd f v h)) e,
           [Command ''HSET'' [k, f, v]]))"
| "spec env (Hget k f) e =
     (case contents get_hash fmempty e of
        None \<Rightarrow> (wrong_type, e, [])
      | Some h \<Rightarrow>
          (case fmlookup h f of None \<Rightarrow> make_null_bulk_string | Some v \<Rightarrow> make_bulk_string v, e, []))"
| "spec env (Hdel k f) e =
     (case contents get_hash fmempty e of
        None \<Rightarrow> (wrong_type, e, [])
      | Some h \<Rightarrow>
          if fmlookup h f = None then (flag False, e, [])
          else (flag True, with_value (HashValue (fmdrop f h)) e, [Command ''HDEL'' [k, f]]))"
| "spec env (Hexists k f) e =
     (case contents get_hash fmempty e of
        None \<Rightarrow> (wrong_type, e, [])
      | Some h \<Rightarrow> (flag (fmlookup h f \<noteq> None), e, []))"
| "spec env (Hlen k) e =
     (case contents get_hash fmempty e of
        None \<Rightarrow> (wrong_type, e, [])
      | Some h \<Rightarrow> (make_integer (int (fcard (fmdom h))), e, []))"
| "spec env (Sadd k m) e =
     (case contents get_set {||} e of
        None \<Rightarrow> (wrong_type, e, [])
      | Some s \<Rightarrow>
          if m |\<in>| s then (flag False, e, [])
          else (flag True, with_value (SetValue (finsert m s)) e, [Command ''SADD'' [k, m]]))"
| "spec env (Srem k m) e =
     (case contents get_set {||} e of
        None \<Rightarrow> (wrong_type, e, [])
      | Some s \<Rightarrow>
          if m |\<notin>| s then (flag False, e, [])
          else (flag True, with_value (SetValue (s |-| {|m|})) e, [Command ''SREM'' [k, m]]))"
| "spec env (Sismember k m) e =
     (case contents get_set {||} e of
        None \<Rightarrow> (wrong_type, e, [])
      | Some s \<Rightarrow> (flag (m |\<in>| s), e, []))"
| "spec env (Scard k) e =
     (case contents get_set {||} e of
        None \<Rightarrow> (wrong_type, e, [])
      | Some s \<Rightarrow> (make_integer (int (fcard s)), e, []))"
| "spec env (Smembers k) e =
     (case contents get_set {||} e of
        None \<Rightarrow> (wrong_type, e, [])
      | Some s \<Rightarrow>
          (make_array (if e = None then [] else map make_bulk_string (set_order env s)), e, []))"

text \<open>The reading of the clock against which a command judges its key expired.\<close>

fun command_time :: "Env \<Rightarrow> command \<Rightarrow> int" where
  "command_time env (Expire k s) = clock2 env"
| "command_time env c = clock1 env"

end
