(* ===== verification/Refinement.thy ===== *)
theory Refinement
  imports Keyspace_Spec
begin

text \<open>
  \<open>execute_command\<close> implements \<open>spec\<close>.

  \<open>entry_of\<close> abstracts the two maps of a store to an entry per key; \<open>no_orphans\<close> (a deadline
  only for a key that exists) makes the abstraction exact. One lemma per helper says what it
  does to the entries, one per command that it implements the specification, and the last
  one puts decoding and dispatch in front.
\<close>

subsection \<open>The abstraction\<close>

definition entry_of :: "Store \<Rightarrow> string \<Rightarrow> entry" where
  "entry_of store key =
     (case fmlookup (vals store) key of
        None \<Rightarrow> None
      | Some v \<Rightarrow> Some (v, fmlookup (expirations store) key))"

definition no_orphans :: "Store \<Rightarrow> bool" where
  "no_orphans store \<longleftrightarrow> fmdom (expirations store) |\<subseteq>| fmdom (vals store)"

definition view :: "int \<Rightarrow> Store \<Rightarrow> string \<Rightarrow> entry" where
  "view now store key = live now (entry_of store key)"

lemma no_orphansD:
  "no_orphans s \<Longrightarrow> fmlookup (vals s) k = None \<Longrightarrow> fmlookup (expirations s) k = None"
  by (metis fmdom_notD fmdom_notI fsubsetD no_orphans_def)

lemma no_orphansI:
  "(\<And>k. fmlookup (vals s) k = None \<Longrightarrow> fmlookup (expirations s) k = None) \<Longrightarrow> no_orphans s"
  by (metis fmdom_notD fmdom_notI fsubsetI no_orphans_def)

lemma entry_of_None_iff: "entry_of s k = None \<longleftrightarrow> fmlookup (vals s) k = None"
  by (auto simp: entry_of_def split: option.splits)

lemma has_key_entry: "has_key s k \<longleftrightarrow> entry_of s k \<noteq> None"
  by (simp add: has_key_def entry_of_None_iff)

text \<open>Entries determine the store.\<close>

lemma store_eqI:
  assumes "no_orphans s" "no_orphans t" "entry_of s = entry_of t"
  shows "s = t"
proof -
  have vals: "fmlookup (vals s) k = fmlookup (vals t) k" for k
    using fun_cong [OF assms(3), of k] by (auto simp: entry_of_def split: option.splits)
  have "fmlookup (expirations s) k = fmlookup (expirations t) k" for k
  proof (cases "fmlookup (vals s) k")
    case None
    with vals [of k] show ?thesis using no_orphansD assms(1,2) by metis
  next
    case (Some v)
    then have "fmlookup (vals t) k = Some v" using vals [of k] by simp
    with Some fun_cong [OF assms(3), of k] show ?thesis by (simp add: entry_of_def)
  qed
  with vals show ?thesis by (simp add: fmap_ext)
qed

lemma live_simps [simp]:
  "live now None = None"
  "live now (Some (v, None)) = Some (v, None)"
  "live now (Some (v, Some d)) = (if now < d then Some (v, Some d) else None)"
  by (simp_all add: live_def)

lemma live_live: "t \<le> t' \<Longrightarrow> live t' (live t e) = live t' e"
  by (auto simp: live_def split: option.splits)

lemma live_cases: "live now e = e \<or> live now e = None"
  by (auto simp: live_def split: option.splits)

subsection \<open>Helpers\<close>

lemma remove_key_entry:
  "entry_of (remove_key s k) = (entry_of s)(k := None)"
  "no_orphans s \<Longrightarrow> no_orphans (remove_key s k)"
  by (auto simp: remove_key_def entry_of_def fun_eq_iff no_orphansD split: option.splits intro!: no_orphansI)

lemma expire_if_due_entry:
  assumes "no_orphans s"
  shows "entry_of (expire_if_due t s k) = (entry_of s)(k := live t (entry_of s k))"
    and "no_orphans (expire_if_due t s k)"
proof -
  show "entry_of (expire_if_due t s k) = (entry_of s)(k := live t (entry_of s k))"
  proof (cases "fmlookup (expirations s) k")
    case None
    then show ?thesis by (auto simp: expire_if_due_def entry_of_def fun_eq_iff split: option.splits)
  next
    case (Some d)
    with assms obtain v where "fmlookup (vals s) k = Some v"
      using no_orphansD by (metis not_None_eq)
    with Some have "entry_of s k = Some (v, Some d)"
      by (simp add: entry_of_def)
    with Some show ?thesis by (auto simp: expire_if_due_def remove_key_entry fun_eq_iff)
  qed
  show "no_orphans (expire_if_due t s k)"
    using assms by (simp add: expire_if_due_def remove_key_entry split: option.splits)
qed

lemma put_value_entry:
  assumes "no_orphans s"
  shows "entry_of (put_value k v s) = (entry_of s)(k := Some (v, deadline_of (entry_of s k)))"
    and "no_orphans (put_value k v s)"
  using assms
  by (auto simp: put_value_def entry_of_def deadline_of_def fun_eq_iff no_orphansD
      split: option.splits if_splits intro!: no_orphansI)

lemma drop_if_empty_entry:
  assumes "no_orphans s"
  shows "entry_of (drop_if_empty s k) =
      (entry_of s)(k := (case entry_of s k of
         None \<Rightarrow> None | Some (v, d) \<Rightarrow> if empty_container v then None else Some (v, d)))"
    and "no_orphans (drop_if_empty s k)"
proof -
  show "entry_of (drop_if_empty s k) =
      (entry_of s)(k := (case entry_of s k of
         None \<Rightarrow> None | Some (v, d) \<Rightarrow> if empty_container v then None else Some (v, d)))"
  proof (cases "fmlookup (vals s) k")
    case None
    then have "entry_of s k = None" by (simp add: entry_of_None_iff)
    with None show ?thesis by (auto simp: drop_if_empty_def fun_eq_iff)
  next
    case (Some v)
    then have "entry_of s k = Some (v, fmlookup (expirations s) k)" by (simp add: entry_of_def)
    with Some show ?thesis by (auto simp: drop_if_empty_def remove_key_entry fun_eq_iff)
  qed
  show "no_orphans (drop_if_empty s k)"
    using assms by (auto simp: drop_if_empty_def remove_key_entry split: option.splits)
qed

lemma set_deadline_entry:
  assumes "no_orphans s" "entry_of s k = Some (v, d)"
  shows "entry_of (s\<lparr>expirations := fmupd k t (expirations s)\<rparr>) = (entry_of s)(k := Some (v, Some t))"
    and "no_orphans (s\<lparr>expirations := fmupd k t (expirations s)\<rparr>)"
proof -
  have here: "fmlookup (vals s) k = Some v"
    using assms(2) by (auto simp: entry_of_def split: option.splits)
  then show "entry_of (s\<lparr>expirations := fmupd k t (expirations s)\<rparr>) = (entry_of s)(k := Some (v, Some t))"
    by (auto simp: entry_of_def fun_eq_iff split: option.splits)
  show "no_orphans (s\<lparr>expirations := fmupd k t (expirations s)\<rparr>)"
    using here assms(1) by (auto intro!: no_orphansI simp: no_orphansD)
qed

lemma drop_deadline_entry:
  assumes "no_orphans s"
  shows "entry_of (s\<lparr>expirations := fmdrop k (expirations s)\<rparr>) =
      (entry_of s)(k := map_option (\<lambda>(v, d). (v, None)) (entry_of s k))"
    and "no_orphans (s\<lparr>expirations := fmdrop k (expirations s)\<rparr>)"
  using assms
  by (auto simp: entry_of_def fun_eq_iff no_orphansD split: option.splits intro!: no_orphansI)

text \<open>A value is written back and dropped if that left it empty.\<close>

lemma drop_put_entry:
  assumes "no_orphans s"
  shows "entry_of (drop_if_empty (put_value k v s) k) = (entry_of s)(k := with_value v (entry_of s k))"
    and "no_orphans (drop_if_empty (put_value k v s) k)"
  using assms by (auto simp: drop_if_empty_entry put_value_entry with_value_def)

text \<open>The typed accesses in terms of the live entry of the key.\<close>

lemma read_typed_eq:
  assumes "no_orphans s"
  shows "read_typed get_if t s k =
    (expire_if_due t s k,
     case live t (entry_of s k) of None \<Rightarrow> False | Some (v, d) \<Rightarrow> get_if v = None,
     case live t (entry_of s k) of None \<Rightarrow> None | Some (v, d) \<Rightarrow> get_if v)"
proof -
  have "entry_of (expire_if_due t s k) k = live t (entry_of s k)"
    using expire_if_due_entry(1) [OF assms] by simp
  then show ?thesis
    by (auto simp: read_typed_def entry_of_def Let_def split: option.splits)
qed

lemma write_typed_eq:
  assumes "no_orphans s" "get_if initial = Some nothing"
  shows "write_typed get_if initial t s k =
    (if live t (entry_of s k) = None then put_value k initial (expire_if_due t s k)
     else expire_if_due t s k,
     contents get_if nothing (live t (entry_of s k)))"
proof -
  have "entry_of (expire_if_due t s k) k = live t (entry_of s k)"
    using expire_if_due_entry(1) [OF assms(1)] by simp
  then show ?thesis
    using assms(2)
    by (auto simp: write_typed_def entry_of_def contents_def put_value_def Let_def split: option.splits)
qed

lemmas accessing = read_typed_eq write_typed_eq expire_if_due_entry put_value_entry drop_put_entry
  log_command_eq contents_def deadline_of_def with_value_def flag_def fcard_fempty finsert_absorb Let_def

subsection \<open>Each command implements its specification\<close>

text \<open>
  An effect implements a command if its reply and its log records are the specified ones and
  the entry of the key, and no other, became the specified one. A command that gives up
  before it looks at its key leaves the store as it is, expired entry included.
\<close>

definition implements :: "effect \<Rightarrow> Env \<Rightarrow> command \<Rightarrow> Store \<Rightarrow> log \<Rightarrow> bool" where
  "implements eff env c s log \<longleftrightarrow>
     (let e = live (command_time env c) (entry_of s (key_of c)) in
      case eff of (r, s', log') \<Rightarrow>
      case spec env c e of (r', e', recs) \<Rightarrow>
        r = r' \<and> log' = fold add_record recs log \<and> no_orphans s' \<and>
        (entry_of s' = (entry_of s)(key_of c := e') \<or> s' = s \<and> e' = e))"

lemma implementsI:
  assumes "spec env c (live (command_time env c) (entry_of s (key_of c))) = (r, e', recs)"
    "no_orphans s'" "log' = fold add_record recs log"
    "entry_of s' = (entry_of s)(key_of c := e')"
  shows "implements (r, s', log') env c s log"
  using assms by (simp add: implements_def)

lemma implements_same:
  assumes "spec env c (live (command_time env c) (entry_of s (key_of c))) =
      (r, live (command_time env c) (entry_of s (key_of c)), [])" "no_orphans s"
  shows "implements (r, s, log) env c s log"
  using assms by (simp add: implements_def)

lemma cmd_ping_implements:
  "no_orphans s \<Longrightarrow> length els = 1 \<Longrightarrow> implements (cmd_ping els s log) env Ping s log"
  by (simp add: cmd_ping_def implements_def)

lemma cmd_del_implements:
  assumes "no_orphans s" "length els = 2"
  shows "implements (cmd_del env els s log) env (Del (arg els 1)) s log"
proof -
  let ?k = "arg els 1"
  note ex = expire_if_due_entry [OF assms(1), of "clock1 env" ?k]
  show ?thesis
    using assms(2) ex
    by (auto simp: cmd_del_def Let_def has_key_entry remove_key_entry log_command_eq flag_def
        intro!: implementsI)
qed

lemma cmd_expire_implements:
  assumes "no_orphans s" "length els = 3" "to_integer (arg els 2) = Some n"
  shows "implements (cmd_expire env els s log) env (Expire (arg els 1) n) s log"
proof (cases "n > max_seconds (clock1 env)")
  case True
  with assms show ?thesis by (auto simp: cmd_expire_def intro!: implements_same)
next
  case False
  let ?k = "arg els 1"
  let ?s = "expire_if_due (clock2 env) s ?k"
  let ?e = "live (clock2 env) (entry_of s ?k)"
  let ?d = "clock1 env + n * ticks_per_second"
  note ex = expire_if_due_entry [OF assms(1), of "clock2 env" ?k]
  show ?thesis
  proof (cases ?e)
    case None
    with assms(2,3) False ex show ?thesis
      by (auto simp: cmd_expire_def Let_def has_key_entry flag_def intro!: implementsI)
  next
    case (Some vd)
    then obtain v d where e: "?e = Some (v, d)" by (cases vd) auto
    with ex have "entry_of ?s ?k = Some (v, d)" by simp
    note set = set_deadline_entry [OF ex(2) this, of ?d]
    with assms(2,3) False ex e set show ?thesis
      by (auto simp: cmd_expire_def Let_def has_key_entry flag_def remove_key_entry
          log_command_eq log_expire_eq intro!: implementsI)
  qed
qed

lemma cmd_ttl_implements:
  assumes "no_orphans s" "length els = 2"
  shows "implements (cmd_ttl env els s log) env (Ttl (arg els 1)) s log"
proof -
  let ?s = "expire_if_due (clock1 env) s (arg els 1)"
  let ?e = "live (clock1 env) (entry_of s (arg els 1))"
  note ex = expire_if_due_entry [OF assms(1), of "clock1 env" "arg els 1"]
  have e: "entry_of ?s (arg els 1) = ?e" using ex by simp
  have "cmd_ttl env els s log = (fst (spec env (Ttl (arg els 1)) ?e), ?s, log)"
    using assms(2) e
    by (auto simp: cmd_ttl_def Let_def has_key_entry entry_of_def split: option.splits)
  then show ?thesis
    using ex assms by (auto intro!: implementsI)
qed

lemma cmd_set_implements:
  assumes "no_orphans s" "length els = 3"
  shows "implements (cmd_set els s log) env (Set (arg els 1) (arg els 2)) s log"
  using assms put_value_entry [OF assms(1)]
  by (auto simp: cmd_set_def Let_def log_command_eq drop_deadline_entry intro!: implementsI)

lemma cmd_get_implements:
  "no_orphans s \<Longrightarrow> length els = 2 \<Longrightarrow> implements (cmd_get env els s log) env (Get (arg els 1)) s log"
  by (cases "live (clock1 env) (entry_of s (arg els 1))")
    (auto simp: cmd_get_def accessing intro!: implementsI split: option.splits Value.splits)

lemma cmd_llen_implements:
  "no_orphans s \<Longrightarrow> length els = 2 \<Longrightarrow> implements (cmd_llen env els s log) env (Llen (arg els 1)) s log"
  by (cases "live (clock1 env) (entry_of s (arg els 1))")
    (auto simp: cmd_llen_def accessing intro!: implementsI split: option.splits Value.splits)

lemma cmd_hget_implements:
  "no_orphans s \<Longrightarrow> length els = 3 \<Longrightarrow> implements (cmd_hget env els s log) env (Hget (arg els 1) (arg els 2)) s log"
  by (cases "live (clock1 env) (entry_of s (arg els 1))")
    (auto simp: cmd_hget_def accessing intro!: implementsI split: option.splits Value.splits)

lemma cmd_hexists_implements:
  "no_orphans s \<Longrightarrow> length els = 3 \<Longrightarrow> implements (cmd_hexists env els s log) env (Hexists (arg els 1) (arg els 2)) s log"
  by (cases "live (clock1 env) (entry_of s (arg els 1))")
    (auto simp: cmd_hexists_def accessing intro!: implementsI split: option.splits Value.splits)

lemma cmd_hlen_implements:
  "no_orphans s \<Longrightarrow> length els = 2 \<Longrightarrow> implements (cmd_hlen env els s log) env (Hlen (arg els 1)) s log"
  by (cases "live (clock1 env) (entry_of s (arg els 1))")
    (auto simp: cmd_hlen_def accessing intro!: implementsI split: option.splits Value.splits)

lemma cmd_sismember_implements:
  "no_orphans s \<Longrightarrow> length els = 3 \<Longrightarrow> implements (cmd_sismember env els s log) env (Sismember (arg els 1) (arg els 2)) s log"
  by (cases "live (clock1 env) (entry_of s (arg els 1))")
    (auto simp: cmd_sismember_def accessing intro!: implementsI split: option.splits Value.splits)

lemma cmd_scard_implements:
  "no_orphans s \<Longrightarrow> length els = 2 \<Longrightarrow> implements (cmd_scard env els s log) env (Scard (arg els 1)) s log"
  by (cases "live (clock1 env) (entry_of s (arg els 1))")
    (auto simp: cmd_scard_def accessing intro!: implementsI split: option.splits Value.splits)

lemma cmd_smembers_implements:
  "no_orphans s \<Longrightarrow> length els = 2 \<Longrightarrow> implements (cmd_smembers env els s log) env (Smembers (arg els 1)) s log"
  by (cases "live (clock1 env) (entry_of s (arg els 1))")
    (auto simp: cmd_smembers_def accessing intro!: implementsI split: option.splits Value.splits)

lemma cmd_hset_implements:
  "no_orphans s \<Longrightarrow> length els = 4 \<Longrightarrow> implements (cmd_hset env els s log) env (Hset (arg els 1) (arg els 2) (arg els 3)) s log"
  by (cases "live (clock1 env) (entry_of s (arg els 1))")
    (auto simp: cmd_hset_def accessing intro!: implementsI split: option.splits Value.splits)

lemma cmd_hdel_implements:
  "no_orphans s \<Longrightarrow> length els = 3 \<Longrightarrow> implements (cmd_hdel env els s log) env (Hdel (arg els 1) (arg els 2)) s log"
  by (cases "live (clock1 env) (entry_of s (arg els 1))")
    (auto simp: cmd_hdel_def accessing intro!: implementsI split: option.splits Value.splits)

lemma cmd_sadd_implements:
  "no_orphans s \<Longrightarrow> length els = 3 \<Longrightarrow> implements (cmd_sadd env els s log) env (Sadd (arg els 1) (arg els 2)) s log"
  by (cases "live (clock1 env) (entry_of s (arg els 1))")
    (auto simp: cmd_sadd_def accessing intro!: implementsI split: option.splits Value.splits)

lemma cmd_srem_implements:
  "no_orphans s \<Longrightarrow> length els = 3 \<Longrightarrow> implements (cmd_srem env els s log) env (Srem (arg els 1) (arg els 2)) s log"
  by (cases "live (clock1 env) (entry_of s (arg els 1))")
    (auto simp: cmd_srem_def accessing intro!: implementsI split: option.splits Value.splits)

lemma cmd_lpush_implements:
  "no_orphans s \<Longrightarrow> length els = 3 \<Longrightarrow> implements (cmd_push ''LPUSH'' env els s log) env (Push LeftEnd (arg els 1) (arg els 2)) s log"
  by (cases "live (clock1 env) (entry_of s (arg els 1))")
    (auto simp: cmd_push_def accessing intro!: implementsI split: option.splits Value.splits)

lemma cmd_rpush_implements:
  "no_orphans s \<Longrightarrow> length els = 3 \<Longrightarrow> implements (cmd_push ''RPUSH'' env els s log) env (Push RightEnd (arg els 1) (arg els 2)) s log"
  by (cases "live (clock1 env) (entry_of s (arg els 1))")
    (auto simp: cmd_push_def accessing intro!: implementsI split: option.splits Value.splits)

lemma cmd_lpop_implements:
  "no_orphans s \<Longrightarrow> length els = 2 \<Longrightarrow> implements (cmd_pop ''LPOP'' env els s log) env (Pop LeftEnd (arg els 1)) s log"
  by (cases "live (clock1 env) (entry_of s (arg els 1))")
    (auto simp: cmd_pop_def accessing intro!: implementsI split: list.splits option.splits Value.splits)

lemma cmd_rpop_implements:
  "no_orphans s \<Longrightarrow> length els = 2 \<Longrightarrow> implements (cmd_pop ''RPOP'' env els s log) env (Pop RightEnd (arg els 1)) s log"
  by (cases "live (clock1 env) (entry_of s (arg els 1))")
    (auto simp: cmd_pop_def accessing intro!: implementsI split: list.splits option.splits Value.splits)

text \<open>The loop of \<open>LRANGE\<close> visits positions of the list only, and collects a slice of it.\<close>

lemma upto_slice:
  assumes "0 \<le> a" "b < int (length xs)"
  shows "map (\<lambda>i. xs ! nat i) [a..b] = drop (nat a) (take (nat (b + 1)) xs)"
proof (rule nth_equalityI)
  show "length (map (\<lambda>i. xs ! nat i) [a..b]) = length (drop (nat a) (take (nat (b + 1)) xs))"
    using assms by (simp add: nat_diff_distrib')
  fix k assume "k < length (map (\<lambda>i. xs ! nat i) [a..b])"
  then have k: "a + int k \<le> b" by simp
  then have "nat a + k < length xs" "nat a + k < nat (b + 1)"
    using assms by linarith+
  moreover have "[a..b] ! k = a + int k"
    using k assms by (simp add: nth_upto)
  moreover have "k < nat (b - a + 1)" using k by simp
  ultimately show "map (\<lambda>i. xs ! nat i) [a..b] ! k = drop (nat a) (take (nat (b + 1)) xs) ! k"
    using assms by (simp add: nat_add_distrib)
qed

lemma range_elements_slice: "range_elements xs i j = map make_bulk_string (slice xs i j)"
proof -
  let ?n = "int (length xs)"
  let ?a = "range_start i ?n" and ?b = "range_stop j ?n"
  have "map (\<lambda>i. xs ! nat i) [?a..?b] = drop (nat ?a) (take (nat (?b + 1)) xs)"
    by (rule upto_slice) (simp_all add: range_start_def range_stop_def)
  moreover have "nat ?a = nat (position i (length xs))"
    by (simp add: range_start_def absolute_index_def position_def max_def add.commute)
  moreover have "take (nat (?b + 1)) xs = take (nat (position j (length xs) + 1)) xs"
  proof (cases "?n \<le> position j (length xs) + 1")
    case True
    then have "?b + 1 = ?n"
      by (simp add: range_stop_def absolute_index_def position_def min_def split: if_splits)
    with True show ?thesis by simp
  next
    case False
    then show ?thesis
      by (simp add: range_stop_def absolute_index_def position_def min_def ac_simps split: if_splits)
  qed
  ultimately have "map (\<lambda>i. xs ! nat i) [?a..?b] = slice xs i j"
    by (simp add: slice_def)
  moreover have "range_elements xs i j = map make_bulk_string (map (\<lambda>i. xs ! nat i) [?a..?b])"
    by (simp add: range_elements_def Let_def)
  ultimately show ?thesis by simp
qed

lemma slice_Nil [simp]: "slice [] i j = []"
  by (simp add: slice_def)

lemma cmd_lrange_implements:
  "no_orphans s \<Longrightarrow> length els = 4 \<Longrightarrow> to_integer (arg els 2) = Some i \<Longrightarrow> to_integer (arg els 3) = Some j \<Longrightarrow>
   implements (cmd_lrange env els s log) env (Lrange (arg els 1) i j) s log"
  by (cases "live (clock1 env) (entry_of s (arg els 1))")
    (auto simp: cmd_lrange_def range_elements_slice accessing intro!: implementsI
      split: option.splits Value.splits)

subsection \<open>Dispatch\<close>

text \<open>A well-formed request is a non-empty array of bulk strings; its words are their bytes.\<close>

definition well_formed_request :: "RespValue \<Rightarrow> bool" where
  "well_formed_request req \<longleftrightarrow>
     rv_type req = Array \<and> \<not> rv_is_null req \<and> rv_elements req \<noteq> [] \<and>
     list_all (\<lambda>e. rv_type e = BulkString \<and> \<not> rv_is_null e) (rv_elements req)"

definition words_of :: "RespValue \<Rightarrow> string list" where
  "words_of req = map rv_string (rv_elements req)"

lemma arity_cases:
  assumes "arity_of name = Some n"
  shows "(name, n) \<in> set
     [(''PING'', 1), (''DEL'', 2), (''EXPIRE'', 3), (''TTL'', 2), (''SET'', 3), (''GET'', 2),
      (''LPUSH'', 3), (''RPUSH'', 3), (''LPOP'', 2), (''RPOP'', 2), (''LLEN'', 2),
      (''LRANGE'', 4), (''HSET'', 4), (''HGET'', 3), (''HDEL'', 3), (''HEXISTS'', 3),
      (''HLEN'', 2), (''SADD'', 3), (''SREM'', 3), (''SISMEMBER'', 3), (''SCARD'', 2),
      (''SMEMBERS'', 2)]"
  using assms unfolding arity_of_def by (rule map_of_SomeD)

text \<open>The branch each verb takes, in the code and in the specification.\<close>

lemma dispatch_verbs:
  "dispatch ''PING'' env els s log = cmd_ping els s log"
  "dispatch ''DEL'' env els s log = cmd_del env els s log"
  "dispatch ''EXPIRE'' env els s log = cmd_expire env els s log"
  "dispatch ''TTL'' env els s log = cmd_ttl env els s log"
  "dispatch ''SET'' env els s log = cmd_set els s log"
  "dispatch ''GET'' env els s log = cmd_get env els s log"
  "dispatch ''LPUSH'' env els s log = cmd_push ''LPUSH'' env els s log"
  "dispatch ''RPUSH'' env els s log = cmd_push ''RPUSH'' env els s log"
  "dispatch ''LPOP'' env els s log = cmd_pop ''LPOP'' env els s log"
  "dispatch ''RPOP'' env els s log = cmd_pop ''RPOP'' env els s log"
  "dispatch ''LLEN'' env els s log = cmd_llen env els s log"
  "dispatch ''LRANGE'' env els s log = cmd_lrange env els s log"
  "dispatch ''HSET'' env els s log = cmd_hset env els s log"
  "dispatch ''HGET'' env els s log = cmd_hget env els s log"
  "dispatch ''HDEL'' env els s log = cmd_hdel env els s log"
  "dispatch ''HEXISTS'' env els s log = cmd_hexists env els s log"
  "dispatch ''HLEN'' env els s log = cmd_hlen env els s log"
  "dispatch ''SADD'' env els s log = cmd_sadd env els s log"
  "dispatch ''SREM'' env els s log = cmd_srem env els s log"
  "dispatch ''SISMEMBER'' env els s log = cmd_sismember env els s log"
  "dispatch ''SCARD'' env els s log = cmd_scard env els s log"
  "dispatch ''SMEMBERS'' env els s log = cmd_smembers env els s log"
  by (simp_all add: dispatch_def)

lemma build_verbs:
  "build ''PING'' words = Inr Ping"
  "build ''DEL'' words = Inr (Del (words ! 1))"
  "build ''EXPIRE'' words = (case to_integer (words ! 2) of None \<Rightarrow> Inl not_an_integer | Some n \<Rightarrow> Inr (Expire (words ! 1) n))"
  "build ''TTL'' words = Inr (Ttl (words ! 1))"
  "build ''SET'' words = Inr (Set (words ! 1) (words ! 2))"
  "build ''GET'' words = Inr (Get (words ! 1))"
  "build ''LPUSH'' words = Inr (Push LeftEnd (words ! 1) (words ! 2))"
  "build ''RPUSH'' words = Inr (Push RightEnd (words ! 1) (words ! 2))"
  "build ''LPOP'' words = Inr (Pop LeftEnd (words ! 1))"
  "build ''RPOP'' words = Inr (Pop RightEnd (words ! 1))"
  "build ''LLEN'' words = Inr (Llen (words ! 1))"
  "build ''LRANGE'' words = (case (to_integer (words ! 2), to_integer (words ! 3)) of (Some i, Some j) \<Rightarrow> Inr (Lrange (words ! 1) i j) | _ \<Rightarrow> Inl not_an_integer)"
  "build ''HSET'' words = Inr (Hset (words ! 1) (words ! 2) (words ! 3))"
  "build ''HGET'' words = Inr (Hget (words ! 1) (words ! 2))"
  "build ''HDEL'' words = Inr (Hdel (words ! 1) (words ! 2))"
  "build ''HEXISTS'' words = Inr (Hexists (words ! 1) (words ! 2))"
  "build ''HLEN'' words = Inr (Hlen (words ! 1))"
  "build ''SADD'' words = Inr (Sadd (words ! 1) (words ! 2))"
  "build ''SREM'' words = Inr (Srem (words ! 1) (words ! 2))"
  "build ''SISMEMBER'' words = Inr (Sismember (words ! 1) (words ! 2))"
  "build ''SCARD'' words = Inr (Scard (words ! 1))"
  "build ''SMEMBERS'' words = Inr (Smembers (words ! 1))"
  by (simp_all add: build_def)

lemma arity_of_None:
  assumes "arity_of name = None"
  shows "dispatch name env els s log = unknown_command els s log"
proof -
  from assms have "name \<notin> set (map fst
     [(''PING'', 1 :: nat), (''DEL'', 2), (''EXPIRE'', 3), (''TTL'', 2), (''SET'', 3), (''GET'', 2),
      (''LPUSH'', 3), (''RPUSH'', 3), (''LPOP'', 2), (''RPOP'', 2), (''LLEN'', 2),
      (''LRANGE'', 4), (''HSET'', 4), (''HGET'', 3), (''HDEL'', 3), (''HEXISTS'', 3),
      (''HLEN'', 2), (''SADD'', 3), (''SREM'', 3), (''SISMEMBER'', 3), (''SCARD'', 2),
      (''SMEMBERS'', 2)])"
    unfolding arity_of_def map_of_eq_None_iff by (simp only: set_map not_False_eq_True)
  then show ?thesis unfolding dispatch_def by simp
qed

lemma dispatch_wrong_arity:
  assumes "arity_of name = Some n" "length els \<noteq> n"
  shows "dispatch name env els s log = (wrong_arity (to_lower name), s, log)"
  using arity_cases [OF assms(1)] assms(2) unfolding list.set insert_iff empty_iff prod.inject
  by (elim disjE conjE FalseE; hypsubst;
      simp only: dispatch_verbs cmd_ping_def cmd_del_def cmd_expire_def cmd_ttl_def cmd_set_def cmd_get_def
        cmd_push_def cmd_pop_def cmd_llen_def cmd_lrange_def cmd_hset_def cmd_hget_def cmd_hdel_def
        cmd_hexists_def cmd_hlen_def cmd_sadd_def cmd_srem_def cmd_sismember_def cmd_scard_def
        cmd_smembers_def if_True simp_thms;
      simp add: to_lower_def char_of_def)

lemmas command_implements = cmd_ping_implements cmd_del_implements cmd_expire_implements
  cmd_ttl_implements cmd_set_implements cmd_get_implements cmd_llen_implements
  cmd_lrange_implements cmd_lpush_implements cmd_rpush_implements cmd_lpop_implements
  cmd_rpop_implements cmd_hset_implements cmd_hget_implements cmd_hdel_implements
  cmd_hexists_implements cmd_hlen_implements cmd_sadd_implements cmd_srem_implements
  cmd_sismember_implements cmd_scard_implements cmd_smembers_implements

lemma dispatch_implements:
  assumes "arity_of name = Some (length els)" "no_orphans s" "words = map rv_string els"
  shows "case build name words of
      Inl r \<Rightarrow> dispatch name env els s log = (r, s, log)
    | Inr c \<Rightarrow> implements (dispatch name env els s log) env c s log"
proof -
  have word: "words ! i = arg els i" if "i < length els" for i
    using that assms(3) by (simp add: arg_def)
  show ?thesis
    using arity_cases [OF assms(1)] unfolding list.set insert_iff empty_iff prod.inject
    by (elim disjE conjE FalseE; hypsubst;
        simp add: dispatch_verbs build_verbs word command_implements [OF assms(2)] del: One_nat_def split: option.split;
        simp add: cmd_expire_def cmd_lrange_def del: One_nat_def split: option.split)
qed

subsection \<open>The whole executor\<close>

lemma execute_malformed:
  "\<not> well_formed_request req \<Longrightarrow> execute_command env req s log = (bad_request, s, log)"
  by (auto simp: execute_command_def well_formed_request_def list_all_iff list_ex_iff)

lemma execute_dispatch:
  "well_formed_request req \<Longrightarrow> execute_command env req s log =
     dispatch (to_upper (words_of req ! 0)) env (rv_elements req) s log"
  by (auto simp: execute_command_def well_formed_request_def words_of_def list_all_iff list_ex_iff arg_def)

lemma execute_decode:
  assumes "well_formed_request req" "no_orphans s"
  shows "case decode (words_of req) of
      Inl r \<Rightarrow> execute_command env req s log = (r, s, log)
    | Inr c \<Rightarrow> implements (execute_command env req s log) env c s log"
proof -
  let ?name = "to_upper (words_of req ! 0)"
  have first: "words_of req ! 0 = arg (rv_elements req) 0"
    and len: "length (words_of req) = length (rv_elements req)"
    using assms(1) by (simp_all add: words_of_def arg_def well_formed_request_def)
  note run = execute_dispatch [OF assms(1)]
  show ?thesis
  proof (cases "arity_of ?name")
    case None
    then show ?thesis
      by (simp add: decode_def run arity_of_None unknown_command_def first)
  next
    case (Some n)
    show ?thesis
    proof (cases "length (rv_elements req) = n")
      case True
      with Some len show ?thesis
        using dispatch_implements [OF _ assms(2) words_of_def [of req], where name = ?name and env = env and log = log]
        by (cases "build ?name (words_of req)") (simp_all add: decode_def run)
    next
      case False
      with Some len show ?thesis
        by (simp add: decode_def run dispatch_wrong_arity)
    qed
  qed
qed

subsection \<open>Requests built from words\<close>

definition request :: "string list \<Rightarrow> RespValue" where
  "request words = make_array (map make_bulk_string words)"

lemma words_of_request [simp]: "words_of (request words) = words"
  by (simp add: words_of_def request_def make_defs comp_def)

lemma well_formed_request_request [simp]: "well_formed_request (request words) \<longleftrightarrow> words \<noteq> []"
  by (auto simp: well_formed_request_def request_def make_defs list_all_iff)

end
