(* ===== verification/Machine.thy ===== *)
theory Machine
  imports Prelude
begin

text \<open>
  Machines that answer requests, and the contracts their clients rest on.

  A machine takes a reading of its environment, a request, a state and a log, and returns a
  reply, a state and a log. \<open>run\<close> feeds it a list of requests: the event loop of the server
  does that with what clients send, and recovery does it with the records of the log.

  \<^item> \<open>executor\<close>: a machine that keeps an invariant. Its clients may assume the invariant
    after any list of requests.
  \<^item> \<open>journal\<close>: a machine whose records, redone one by one on a twin of its state, make a twin
    of its new state. Recovery may then redo the records of any list of requests.
  \<^item> \<open>simulation\<close>: a machine that implements an abstract one, as seen at the time of each
    request. A client cannot tell two related states apart.
\<close>

fun run ::
  "('env \<Rightarrow> 'req \<Rightarrow> 's \<Rightarrow> 'l \<Rightarrow> 'r \<times> 's \<times> 'l) \<Rightarrow> ('env \<times> 'req) list \<Rightarrow> 's \<Rightarrow> 'l \<Rightarrow> 'r list \<times> 's \<times> 'l"
where
  "run exec [] s log = ([], s, log)"
| "run exec ((env, req) # events) s log =
     (case exec env req s log of (r, s, log) \<Rightarrow>
      case run exec events s log of (rs, s, log) \<Rightarrow> (r # rs, s, log))"

fun spec_run ::
  "('env \<Rightarrow> 'req \<Rightarrow> 'a \<Rightarrow> 'r \<times> 'a \<times> 'rec list) \<Rightarrow> ('env \<times> 'req) list \<Rightarrow> 'a \<Rightarrow> 'r list \<times> 'a \<times> 'rec list"
where
  "spec_run step [] a = ([], a, [])"
| "spec_run step ((env, req) # events) a =
     (case step env req a of (r, a, recs) \<Rightarrow>
      case spec_run step events a of (rs, a, more_recs) \<Rightarrow> (r # rs, a, recs @ more_recs))"

text \<open>Environments read the clock in order: each begins when or after the last one ended.\<close>

fun orderly :: "('env \<Rightarrow> 't::linorder) \<Rightarrow> ('env \<Rightarrow> 't) \<Rightarrow> 't \<Rightarrow> ('env \<times> 'req) list \<Rightarrow> bool" where
  "orderly begins ends t [] = True"
| "orderly begins ends t ((env, req) # events) =
     (t \<le> begins env \<and> begins env \<le> ends env \<and> orderly begins ends (ends env) events)"

fun last_end :: "('env \<Rightarrow> 't) \<Rightarrow> 't \<Rightarrow> ('env \<times> 'req) list \<Rightarrow> 't" where
  "last_end ends t [] = t"
| "last_end ends t ((env, req) # events) = last_end ends (ends env) events"

lemma run_append:
  "run exec (xs @ ys) s log =
    (case run exec xs s log of (rs, s, log) \<Rightarrow>
     case run exec ys s log of (rs', s, log) \<Rightarrow> (rs @ rs', s, log))"
  by (induction xs arbitrary: s log) (auto split: prod.split)

lemma run_length: "length (fst (run exec events s log)) = length events"
  by (induction exec events s log rule: run.induct) (auto split: prod.split)

locale executor =
  fixes exec :: "'env \<Rightarrow> 'req \<Rightarrow> 's \<Rightarrow> 'l \<Rightarrow> 'r \<times> 's \<times> 'l"
    and ready :: "'env \<Rightarrow> bool"
    and inv :: "'s \<Rightarrow> bool"
  assumes keeps: "inv s \<Longrightarrow> ready env \<Longrightarrow> exec env req s log = (r, s', log') \<Longrightarrow> inv s'"
begin

lemma run_keeps:
  "inv s \<Longrightarrow> \<forall>(env, req) \<in> set events. ready env \<Longrightarrow> run exec events s log = (rs, s', log') \<Longrightarrow> inv s'"
proof (induction events arbitrary: s log rs)
  case Nil
  then show ?case by simp
next
  case (Cons event events)
  obtain env req where event: "event = (env, req)" by (cases event)
  obtain r s1 log1 where now: "exec env req s log = (r, s1, log1)" by (metis prod_cases3)
  obtain rs' where "run exec events s1 log1 = (rs', s', log')"
    using Cons.prems(3) by (auto simp: event now split: prod.splits)
  moreover have "inv s1" using keeps now Cons.prems event by auto
  ultimately show ?case using Cons.IH Cons.prems(2) by auto
qed

end

locale simulation =
  fixes exec :: "'env \<Rightarrow> 'req \<Rightarrow> 's \<Rightarrow> 'l \<Rightarrow> 'r \<times> 's \<times> 'l"
    and step :: "'env \<Rightarrow> 'req \<Rightarrow> 'a \<Rightarrow> 'r \<times> 'a \<times> 'rec list"
    and related :: "'t::linorder \<Rightarrow> 's \<Rightarrow> 'a \<Rightarrow> bool"
    and begins :: "'env \<Rightarrow> 't"
    and ends :: "'env \<Rightarrow> 't"
    and add :: "'rec \<Rightarrow> 'l \<Rightarrow> 'l"
  assumes simulates:
    "related t s a \<Longrightarrow> t \<le> begins env \<Longrightarrow> begins env \<le> ends env \<Longrightarrow>
     exec env req s log = (r, s', log') \<Longrightarrow> step env req a = (r', a', recs) \<Longrightarrow>
     r = r' \<and> log' = fold add recs log \<and> related (ends env) s' a'"
begin

lemma run_simulates:
  "related t s a \<Longrightarrow> orderly begins ends t events \<Longrightarrow> run exec events s log = (rs, s', log') \<Longrightarrow>
   spec_run step events a = (rs', a', recs) \<Longrightarrow>
   rs = rs' \<and> log' = fold add recs log \<and> related (last_end ends t events) s' a'"
proof (induction events arbitrary: t s a log rs rs' recs)
  case Nil
  then show ?case by simp
next
  case (Cons event events)
  obtain env req where event: "event = (env, req)" by (cases event)
  obtain r s1 log1 where e: "exec env req s log = (r, s1, log1)" by (metis prod_cases3)
  obtain r' a1 recs1 where f: "step env req a = (r', a1, recs1)" by (metis prod_cases3)
  obtain rs1 where e': "run exec events s1 log1 = (rs1, s', log')" "rs = r # rs1"
    using Cons.prems(3) by (auto simp: event e split: prod.splits)
  obtain rs1' recs2 where f': "spec_run step events a1 = (rs1', a', recs2)" "rs' = r' # rs1'"
      "recs = recs1 @ recs2"
    using Cons.prems(4) by (auto simp: event f split: prod.splits)
  have one: "r = r' \<and> log1 = fold add recs1 log \<and> related (ends env) s1 a1"
    using simulates [OF Cons.prems(1) _ _ e f] Cons.prems(2) event by simp
  have "rs1 = rs1' \<and> log' = fold add recs2 log1 \<and> related (last_end ends (ends env) events) s' a'"
    using Cons.IH [OF _ _ e'(1) f'(1), where t = "ends env"] one Cons.prems(2) event by simp
  with one show ?case by (simp add: e' f' event)
qed

text \<open>States related to the same abstract state answer alike for ever.\<close>

lemma run_alike:
  assumes "related t s a" "related t s2 a" "orderly begins ends t events"
  shows "fst (run exec events s log) = fst (run exec events s2 log)"
    and "snd (snd (run exec events s log)) = snd (snd (run exec events s2 log))"
proof -
  obtain rs s' log' where one: "run exec events s log = (rs, s', log')" by (metis prod_cases3)
  obtain rs2 s2' log2' where two: "run exec events s2 log = (rs2, s2', log2')" by (metis prod_cases3)
  obtain rsa a' recs where abstract: "spec_run step events a = (rsa, a', recs)" by (metis prod_cases3)
  note facts = run_simulates [OF assms(1,3) one abstract] run_simulates [OF assms(2,3) two abstract]
  then show "fst (run exec events s log) = fst (run exec events s2 log)"
    and "snd (snd (run exec events s log)) = snd (snd (run exec events s2 log))"
    by (simp_all add: one two)
qed

end

subsection \<open>Journals\<close>

text \<open>Records are redone in environments numbered from 1, as recovery numbers them.\<close>

fun redo_from :: "(int \<Rightarrow> 'rec \<Rightarrow> 't \<Rightarrow> 't) \<Rightarrow> int \<Rightarrow> 'rec list \<Rightarrow> 't \<Rightarrow> 't" where
  "redo_from redo n [] t = t"
| "redo_from redo n (r # rs) t = redo_from redo (n + 1) rs (redo (n + 1) r t)"

lemma redo_from_append:
  "redo_from redo n (xs @ ys) t = redo_from redo (n + int (length xs)) ys (redo_from redo n xs t)"
  by (induction redo n xs t rule: redo_from.induct) (simp_all add: add.assoc)

fun records :: "('env \<Rightarrow> 'req \<Rightarrow> 's \<Rightarrow> 's \<times> 'rec list) \<Rightarrow> ('env \<times> 'req) list \<Rightarrow> 's \<Rightarrow> 's \<times> 'rec list" where
  "records step [] s = (s, [])"
| "records step ((env, req) # events) s =
     (case step env req s of (s, recs) \<Rightarrow>
      case records step events s of (s, more_recs) \<Rightarrow> (s, recs @ more_recs))"

fun along :: "('env \<Rightarrow> 's \<Rightarrow> bool) \<Rightarrow> ('env \<Rightarrow> 'req \<Rightarrow> 's \<Rightarrow> 's \<times> 'rec list) \<Rightarrow> ('env \<times> 'req) list \<Rightarrow> 's \<Rightarrow> bool" where
  "along P step [] s = True"
| "along P step ((env, req) # events) s = (P env s \<and> along P step events (fst (step env req s)))"

lemma along_conj:
  "along P step events s \<Longrightarrow> \<forall>(env, req) \<in> set events. Q env \<Longrightarrow> along (\<lambda>env s. P env s \<and> Q env) step events s"
  by (induction P step events s rule: along.induct) auto

locale journal =
  fixes step :: "'env \<Rightarrow> 'req \<Rightarrow> 's \<Rightarrow> 's \<times> 'rec list"
    and redo :: "int \<Rightarrow> 'rec \<Rightarrow> 't \<Rightarrow> 't"
    and twin :: "'s \<Rightarrow> 't \<Rightarrow> bool"
    and undisturbed :: "'env \<Rightarrow> 's \<Rightarrow> bool"
    and durable :: "'rec \<Rightarrow> bool"
  assumes redo_step:
    "twin s t \<Longrightarrow> undisturbed env s \<Longrightarrow> step env req s = (s', recs) \<Longrightarrow> list_all durable recs \<Longrightarrow>
     twin s' (redo_from redo n recs t)"
begin

lemma redo_run:
  "twin s t \<Longrightarrow> along undisturbed step events s \<Longrightarrow> records step events s = (s', recs) \<Longrightarrow>
   list_all durable recs \<Longrightarrow> twin s' (redo_from redo n recs t)"
proof (induction events arbitrary: s t n recs)
  case Nil
  then show ?case by simp
next
  case (Cons event events)
  obtain env req where event: "event = (env, req)" by (cases event)
  obtain s1 recs1 where one: "step env req s = (s1, recs1)" by (cases "step env req s")
  obtain recs2 where two: "records step events s1 = (s', recs2)" "recs = recs1 @ recs2"
    using Cons.prems(3) by (auto simp: event one split: prod.splits)
  have "twin s1 (redo_from redo n recs1 t)"
    using redo_step [OF Cons.prems(1) _ one] Cons.prems(2,4) two(2) by (simp add: event)
  from Cons.IH [OF this _ two(1), of "n + int (length recs1)"] Cons.prems(2,4) two(2) show ?case
    by (simp add: event one redo_from_append)
qed

end

end
