(* ===== verification/Resp_Laws.thy ===== *)
theory Resp_Laws
  imports Resp
begin

text \<open>
  What the parser promises to the code that feeds it a growing buffer (the read loop of
  \<open>src/server.cpp\<close>, the benchmark client): how many bytes a value takes, that the bytes
  after it play no part, that a malformed buffer stays malformed, and that the values it
  builds are well formed.
\<close>

subsection \<open>Lines\<close>

lemma sv_find_crlf_D:
  assumes "sv_find input crlf pos = Some at"
  shows "pos \<le> at" "at + 2 \<le> length input"
    "find_sub crlf (drop pos input) = Some (at - pos)"
proof -
  from assms obtain i where i: "pos \<le> length input" "at = pos + i"
    "find_sub crlf (drop pos input) = Some i"
    by (auto simp: sv_find_def split: if_splits)
  from find_sub_bound [OF i(3)] i show "pos \<le> at" "at + 2 \<le> length input"
    "find_sub crlf (drop pos input) = Some (at - pos)"
    by auto
qed

lemma read_line_Ok_D:
  assumes "read_line input pos l = (LineOk, q, line)"
  shows "sv_find input crlf pos = Some (q - 2)" "pos + 2 \<le> q" "q \<le> length input"
    "line = sv_substr input pos (q - 2 - pos)" "one_line line"
  using assms sv_find_crlf_D [of input pos]
  by (force simp: read_line_def Let_def one_line_def split: option.splits if_splits)+

lemma read_line_agree:
  assumes found: "sv_find input crlf pos = Some at"
    and agree: "take (at + 2) input' = take (at + 2) input"
  shows "read_line input' pos l = read_line input pos l"
proof -
  note at = sv_find_crlf_D [OF found]
  have len: "at + 2 \<le> length input'"
    using agree_length [OF agree] at(2) by simp
  have "take (at - pos + 2) (drop pos input') = take (at - pos + 2) (drop pos input)"
    using agree_drop [OF agree, of pos] at(1) by (simp add: Suc_diff_le)
  then have "find_sub crlf (drop pos input') = Some (at - pos)"
    and "sv_substr input' pos (at - pos) = sv_substr input pos (at - pos)"
    using find_sub_crlf_agree [OF at(3)]
    by (auto simp: sv_substr_def intro: take_take_min_eq)
  then show ?thesis
    using found at len by (simp add: read_line_def) (simp add: sv_find_def)
qed

lemma read_line_agree_Ok:
  assumes "read_line input pos l = (LineOk, q, line)" and "take q input' = take q input"
  shows "read_line input' pos l = (LineOk, q, line)"
proof -
  note found = read_line_Ok_D(1,2) [OF assms(1)]
  have "q - 2 + 2 = q"
    using found(2) by simp
  then have "read_line input' pos l = read_line input pos l"
    using read_line_agree [OF found(1), of input' l] assms(2) by simp
  with assms(1) show ?thesis by simp
qed

lemma read_line_more:
  assumes "read_line input pos l = (st, q, line)" and "st \<noteq> LineIncomplete"
  shows "read_line (input @ extra) pos l = (st, q, line)"
proof -
  from assms obtain at where at: "sv_find input crlf pos = Some at"
    by (auto simp: read_line_def split: option.splits)
  with sv_find_crlf_D(2) [OF at] assms show ?thesis
    by (subst read_line_agree [OF at]) simp_all
qed

text \<open>A line written with its CRLF reads back.\<close>

lemma read_line_written:
  assumes "one_line s"
  shows "read_line (pre @ s @ CR # LF # rest) (length pre) l =
    (LineOk, length pre + length s + 2, s)"
  using assms find_sub_crlf_line [OF assms, of rest]
  by (simp add: read_line_def sv_find_def sv_substr_def one_line_def)

subsection \<open>Bulk strings\<close>

lemma bulk_needed_eq:
  assumes "0 \<le> len" "len \<le> LLONG_MAX"
  shows "uint (bulk_needed len) = len + 2"
    and "unat (bulk_needed len) = nat len + 2"
    and "unat (word_of_int len :: 64 word) = nat len"
proof -
  show uint: "uint (bulk_needed len) = len + 2"
    using assms by (simp add: bulk_needed_def LLONG_MAX_def uint_word_ariths
      uint_word_of_int mod_pos_pos_trivial take_bit_eq_mod)
  show "unat (bulk_needed len) = nat len + 2"
    using uint assms by (simp add: unat_eq_nat_uint nat_add_distrib)
  show "unat (word_of_int len :: 64 word) = nat len"
    using assms by (simp add: unat_eq_nat_uint uint_word_of_int LLONG_MAX_def mod_pos_pos_trivial)
qed

text \<open>The branch in terms of numbers, with the wrap-around of the 64-bit sum excluded.\<close>

lemma parse_bulk_eq:
  "parse_bulk input pos line out error =
     (case to_integer line of
        None \<Rightarrow> (Malformed, pos, out, ''bulk string length is not a valid number'')
      | Some len \<Rightarrow>
          if len = -1 then (Ok, pos, set_null (set_type BulkString out), error)
          else if len < -1 then
            (Malformed, pos, set_type BulkString out, ''negative bulk string length'')
          else if length input - pos < nat len + 2 then
            (Incomplete, pos, set_type BulkString out, error)
          else if input ! (pos + nat len) \<noteq> CR \<or> input ! (pos + nat len + 1) \<noteq> LF then
            (Malformed, pos, set_type BulkString out, ''bulk string is not terminated by CRLF'')
          else (Ok, pos + nat len + 2,
            set_string (sv_substr input pos (nat len)) (set_type BulkString out), error))"
proof (cases "to_integer line")
  case (Some len)
  then have max: "len \<le> LLONG_MAX"
    using to_integer_fits fits_llong_D by blast
  show ?thesis
  proof (cases "0 \<le> len")
    case True
    have "int (length input - pos) < len + 2 \<longleftrightarrow> length input - pos < nat len + 2"
      using True by linarith
    then show ?thesis
      using Some True bulk_needed_eq [OF True max] by (simp add: parse_bulk_def Let_def)
  qed (use Some in \<open>simp add: parse_bulk_def Let_def\<close>)
qed (simp add: parse_bulk_def)

lemma parse_bulk_Ok_D:
  assumes "parse_bulk input pos line out error = (Ok, p, v, e)" and "pos \<le> length input"
  shows "pos \<le> p" "p \<le> length input" "e = error"
    and "take p input' = take p input \<Longrightarrow> parse_bulk input' pos line out error = (Ok, p, v, e)"
proof -
  show "pos \<le> p" "p \<le> length input" "e = error"
    using assms by (auto simp: parse_bulk_eq split: option.splits if_splits)
  assume agree: "take p input' = take p input"
  from assms obtain len where len: "to_integer line = Some len" "len = -1 \<or> 0 \<le> len"
    by (auto simp: parse_bulk_eq split: option.splits if_splits)
  show "parse_bulk input' pos line out error = (Ok, p, v, e)"
  proof (cases "len = -1")
    case True
    with len assms show ?thesis by (simp add: parse_bulk_eq)
  next
    case False
    with len assms have p: "p = pos + nat len + 2" "p \<le> length input"
      by (auto simp: parse_bulk_eq split: if_splits)
    then have len': "p \<le> length input'"
      using agree_length [OF agree] by simp
    have "input' ! (pos + nat len) = input ! (pos + nat len)"
      "input' ! (pos + nat len + 1) = input ! (pos + nat len + 1)"
      using p by (auto intro: agree_nth [OF agree])
    moreover have "sv_substr input' pos (nat len) = sv_substr input pos (nat len)"
      using agree_drop [OF agree, of pos] p by (auto simp: sv_substr_def intro: take_take_min_eq)
    ultimately show ?thesis
      using False len assms p len' by (auto simp: parse_bulk_eq split: if_splits)
  qed
qed

lemma parse_bulk_Malformed_more:
  assumes "parse_bulk input pos line out error = (Malformed, p, v, e)" and "pos \<le> length input"
  shows "parse_bulk (input @ extra) pos line out error = (Malformed, p, v, e)"
  using assms by (auto simp: parse_bulk_eq nth_append split: option.splits if_splits)

subsection \<open>The element loop\<close>

text \<open>
  Facts about one element carry over to the loop. \<open>advances N pv\<close>: inside the first \<open>N\<close>
  bytes, a successful element parser moves forward, stays in bounds and leaves the error
  text alone.
\<close>

definition advances ::
  "nat \<Rightarrow> (nat \<Rightarrow> RespValue \<Rightarrow> string \<Rightarrow> ParseStatus \<times> nat \<times> RespValue \<times> string) \<Rightarrow> bool"
where
  "advances N pv \<longleftrightarrow>
     (\<forall>p v e p' v' e'. p \<le> N \<longrightarrow> pv p v e = (Ok, p', v', e') \<longrightarrow> p < p' \<and> p' \<le> N \<and> e' = e)"

lemma advancesD:
  "advances N pv \<Longrightarrow> pv p v e = (Ok, p', v', e') \<Longrightarrow> p \<le> N \<Longrightarrow> p < p' \<and> p' \<le> N \<and> e' = e"
  by (auto simp: advances_def)

lemma parse_elements_done [simp]:
  "\<not> i < count \<Longrightarrow> parse_elements pv i count pos out error = (Ok, pos, out, error)"
  by (simp add: parse_elements.simps)

lemma parse_elements_next:
  "i < count \<Longrightarrow> pv pos default_value error = (Ok, p, v, e) \<Longrightarrow>
   parse_elements pv i count pos out error =
     parse_elements pv (i + 1) count p (push_element out v) e"
  by (subst parse_elements.simps) simp

lemma parse_elements_stop:
  "i < count \<Longrightarrow> pv pos default_value error = (st, p, v, e) \<Longrightarrow> st \<noteq> Ok \<Longrightarrow>
   parse_elements pv i count pos out error = (st, p, out, e)"
  by (subst parse_elements.simps) simp

text \<open>One turn of a loop that succeeds: the element parses and the rest of the loop succeeds.\<close>

lemma parse_elements_turn:
  assumes "parse_elements pv i count pos out error = (Ok, p', v', e')" "i < count"
  obtains p v e where "pv pos default_value error = (Ok, p, v, e)"
    "parse_elements pv (i + 1) count p (push_element out v) e = (Ok, p', v', e')"
proof -
  obtain st p v e where el: "pv pos default_value error = (st, p, v, e)"
    by (metis prod_cases4)
  have "st = Ok"
  proof (rule ccontr)
    assume "st \<noteq> Ok"
    from parse_elements_stop [where pv = pv, OF assms(2) el this] assms(1) \<open>st \<noteq> Ok\<close>
    show False by simp
  qed
  with el assms that show ?thesis
    by (simp add: parse_elements_next)
qed

lemma parse_elements_advances:
  "parse_elements pv i count pos out error = (Ok, p', v', e') \<Longrightarrow> advances N pv \<Longrightarrow> pos \<le> N \<Longrightarrow>
    pos + nat (count - i) \<le> p' \<and> p' \<le> N \<and> e' = error"
proof (induction "nat (count - i)" arbitrary: i pos out error)
  case 0
  then show ?case by simp
next
  case (Suc k)
  then have i: "i < count" by simp
  from Suc.prems(1) i obtain p v e where el: "pv pos default_value error = (Ok, p, v, e)"
    and rest: "parse_elements pv (i + 1) count p (push_element out v) e = (Ok, p', v', e')"
    by (rule parse_elements_turn)
  have here: "pos < p \<and> p \<le> N \<and> e = error"
    by (rule advancesD [OF Suc.prems(2) el Suc.prems(3)])
  moreover have "p + nat (count - (i + 1)) \<le> p' \<and> p' \<le> N \<and> e' = e"
    using Suc.hyps(1) [OF _ rest Suc.prems(2)] Suc.hyps(2) here by simp
  moreover have "nat (count - i) = Suc (nat (count - (i + 1)))"
    using i by simp
  ultimately show ?case by simp
qed

text \<open>Another element parser that agrees up to where the loop ends gives the same loop.\<close>

lemma parse_elements_agree:
  "parse_elements pv i count pos out error = (Ok, p', v', e') \<Longrightarrow> advances N pv \<Longrightarrow> pos \<le> N \<Longrightarrow>
   (\<And>p q v e. p \<le> N \<Longrightarrow> q \<le> p' \<Longrightarrow> pv p default_value error = (Ok, q, v, e) \<Longrightarrow>
      pv' p default_value error = (Ok, q, v, e)) \<Longrightarrow>
   parse_elements pv' i count pos out error = (Ok, p', v', e')"
proof (induction "nat (count - i)" arbitrary: i pos out)
  case 0
  then show ?case by simp
next
  case (Suc k)
  then have i: "i < count" by simp
  from Suc.prems(1) i obtain p v e where el: "pv pos default_value error = (Ok, p, v, e)"
    and rest: "parse_elements pv (i + 1) count p (push_element out v) e = (Ok, p', v', e')"
    by (rule parse_elements_turn)
  have here: "pos < p" "p \<le> N" "e = error"
    using advancesD [OF Suc.prems(2) el Suc.prems(3)] by auto
  with parse_elements_advances [OF rest Suc.prems(2)] have "p \<le> p'" by simp
  with Suc.prems(3,4) el here have "pv' pos default_value error = (Ok, p, v, error)" by simp
  moreover have "parse_elements pv' (i + 1) count p (push_element out v) error = (Ok, p', v', e')"
    using Suc.hyps(1) [of "i + 1"] Suc.hyps(2) Suc.prems(2,4) here rest i by simp
  ultimately show ?case using i by (simp add: parse_elements_next)
qed

lemma parse_elements_Malformed_agree:
  "parse_elements pv i count pos out error = (Malformed, p', v', e') \<Longrightarrow> advances N pv \<Longrightarrow> pos \<le> N \<Longrightarrow>
   (\<And>p st q v e. p \<le> N \<Longrightarrow> st \<noteq> Incomplete \<Longrightarrow> pv p default_value error = (st, q, v, e) \<Longrightarrow>
      pv' p default_value error = (st, q, v, e)) \<Longrightarrow>
   parse_elements pv' i count pos out error = (Malformed, p', v', e')"
proof (induction "nat (count - i)" arbitrary: i pos out)
  case 0
  then show ?case by simp
next
  case (Suc k)
  then have i: "i < count" by simp
  obtain st p v e where el: "pv pos default_value error = (st, p, v, e)"
    by (metis prod_cases4)
  show ?case
  proof (cases "st = Ok")
    case True
    then have here: "pos < p" "p \<le> N" "e = error"
      using advancesD [OF Suc.prems(2) el [unfolded True] Suc.prems(3)] by auto
    have rest: "parse_elements pv (i + 1) count p (push_element out v) error = (Malformed, p', v', e')"
      using Suc.prems(1) el here True i by (simp add: parse_elements_next)
    have "parse_elements pv' (i + 1) count p (push_element out v) error = (Malformed, p', v', e')"
      using Suc.hyps(1) [OF _ rest] Suc.hyps(2) Suc.prems(2,4) here i by simp
    moreover have "pv' pos default_value error = (Ok, p, v, error)"
      using Suc.prems(3) Suc.prems(4) [of pos Ok p v error] el here True by simp
    ultimately show ?thesis using i by (simp add: parse_elements_next)
  next
    case False
    then have "(st, p, out, e) = (Malformed, p', v', e')"
      using Suc.prems(1) parse_elements_stop [where pv = pv, OF i el] by simp
    moreover from this have "pv' pos default_value error = (st, p, v, e)"
      using Suc.prems(3) Suc.prems(4) [of pos st p v e] el by simp
    ultimately show ?thesis using i False by (simp add: parse_elements_stop)
  qed
qed

subsection \<open>One value\<close>

text \<open>What \<open>parse_value\<close> does once it has the type byte and its line.\<close>

definition after_line ::
  "string \<Rightarrow> int \<Rightarrow> char \<Rightarrow> string \<Rightarrow> nat \<Rightarrow> RespValue \<Rightarrow> string \<Rightarrow>
   ParseStatus \<times> nat \<times> RespValue \<times> string"
where
  "after_line input depth prefix line pos out error =
     (if prefix = CHR ''+'' then (Ok, pos, set_string line (set_type SimpleString out), error)
      else if prefix = CHR ''-'' then (Ok, pos, set_string line (set_type Error out), error)
      else if prefix = CHR '':'' then
        (case to_integer line of
           None \<Rightarrow> (Malformed, pos, out, ''integer is not a valid number'')
         | Some number \<Rightarrow> (Ok, pos, set_integer number (set_type Integer out), error))
      else if prefix = CHR ''$'' then parse_bulk input pos line out error
      else
        (case to_integer line of
           None \<Rightarrow> (Malformed, pos, out, ''array length is not a valid number'')
         | Some count \<Rightarrow>
             if count = -1 then (Ok, pos, set_null (set_type Array out), error)
             else if count < -1 then (Malformed, pos, set_type Array out, ''negative array length'')
             else parse_elements (\<lambda>p v e. parse_value input p v e (depth + 1))
                    0 count pos (set_type Array out) error))"

definition known_prefix :: "char \<Rightarrow> bool" where
  "known_prefix c \<longleftrightarrow> c \<in> {CHR ''+'', CHR ''-'', CHR '':'', CHR ''$'', CHR ''*''}"

lemma parse_value_too_deep:
  "depth > kMaxDepth \<Longrightarrow> parse_value input pos out error depth = (Malformed, pos, out, depth_error)"
  by (simp add: parse_value.simps)

lemma parse_value_no_input:
  "depth \<le> kMaxDepth \<Longrightarrow> length input \<le> pos \<Longrightarrow>
   parse_value input pos out error depth = (Incomplete, pos, out, error)"
  by (simp add: parse_value.simps)

lemma parse_value_unknown:
  "depth \<le> kMaxDepth \<Longrightarrow> pos < length input \<Longrightarrow> \<not> known_prefix (input ! pos) \<Longrightarrow>
   parse_value input pos out error depth = (Malformed, pos + 1, out, ''unknown RESP type byte'')"
  by (simp add: parse_value.simps known_prefix_def Let_def)

lemma parse_value_line:
  "depth \<le> kMaxDepth \<Longrightarrow> pos < length input \<Longrightarrow> known_prefix (input ! pos) \<Longrightarrow>
   parse_value input pos out error depth =
     (case read_line input (pos + 1) [] of
        (LineOk, q, line) \<Rightarrow> after_line input depth (input ! pos) line q out error
      | (LineIncomplete, q, line) \<Rightarrow> (Incomplete, q, out, error)
      | (LineMalformed, q, line) \<Rightarrow> (Malformed, q, out, ''line contains a stray CR or LF''))"
  by (subst parse_value.simps)
    (auto simp: known_prefix_def after_line_def Let_def split: prod.splits LineStatus.splits option.splits)

text \<open>
  Case analysis on a call of the parser, by how it went: out of input, too deep, an unknown
  type byte, a bad line, or a type byte with its line.
\<close>

lemma parse_value_cases [consumes 1, case_names incomplete deep unknown bad_line line]:
  assumes "parse_value input pos out error depth = (st, p, v, e)"
  obtains (incomplete) "st = Incomplete"
  | (deep) "depth > kMaxDepth" "st = Malformed" "p = pos" "v = out" "e = depth_error"
  | (unknown) "depth \<le> kMaxDepth" "pos < length input" "\<not> known_prefix (input ! pos)"
      "st = Malformed" "p = pos + 1" "v = out" "e = ''unknown RESP type byte''"
  | (bad_line) line where "depth \<le> kMaxDepth" "pos < length input" "known_prefix (input ! pos)"
      "read_line input (pos + 1) [] = (LineMalformed, p, line)"
      "st = Malformed" "v = out" "e = ''line contains a stray CR or LF''"
  | (line) q line where "depth \<le> kMaxDepth" "pos < length input" "known_prefix (input ! pos)"
      "read_line input (pos + 1) [] = (LineOk, q, line)"
      "after_line input depth (input ! pos) line q out error = (st, p, v, e)"
proof (cases "depth > kMaxDepth")
  case True
  with assms deep show ?thesis by (simp add: parse_value_too_deep)
next
  case False
  consider (out) "length input \<le> pos" | (known) "pos < length input" "known_prefix (input ! pos)"
    | (other) "pos < length input" "\<not> known_prefix (input ! pos)"
    by linarith
  then show ?thesis
  proof cases
    case out
    with assms False incomplete show ?thesis by (simp add: parse_value_no_input)
  next
    case known
    obtain ls q line where "read_line input (pos + 1) [] = (ls, q, line)"
      by (metis prod_cases3)
    with assms False known incomplete bad_line line show ?thesis
      by (cases ls) (simp_all add: parse_value_line)
  next
    case other
    with assms False unknown show ?thesis by (simp add: parse_value_unknown)
  qed
qed

text \<open>
  After the line: a value decided by the line alone, a bulk string, or an array with elements.
\<close>

lemma after_line_cases [consumes 1, case_names plain bulk elements]:
  assumes "after_line input depth c line q out error = (st, p, v, e)"
  obtains (plain) "\<And>input'. after_line input' depth c line q out error = (st, p, v, e)"
      "p = q" "st = Ok \<Longrightarrow> e = error"
      "st = Ok \<Longrightarrow> v \<in> {set_string line (set_type SimpleString out),
         set_string line (set_type Error out), set_null (set_type Array out)} \<or>
         (\<exists>n. fits_llong n \<and> v = set_integer n (set_type Integer out))"
  | (bulk) "parse_bulk input q line out error = (st, p, v, e)"
      "\<And>input'. after_line input' depth c line q out error = parse_bulk input' q line out error"
  | (elements) count where "to_integer line = Some count" "0 \<le> count"
      "parse_elements (\<lambda>p v e. parse_value input p v e (depth + 1)) 0 count q
         (set_type Array out) error = (st, p, v, e)"
      "\<And>input'. after_line input' depth c line q out error =
         parse_elements (\<lambda>p v e. parse_value input' p v e (depth + 1)) 0 count q
           (set_type Array out) error"
proof (cases "c \<in> {CHR ''+'', CHR ''-'', CHR '':''}")
  case True
  then have any: "after_line input' depth c line q out error = after_line input depth c line q out error"
    for input' by (auto simp: after_line_def)
  from True assms have "p = q \<and> (st = Ok \<longrightarrow> e = error \<and>
    (v \<in> {set_string line (set_type SimpleString out), set_string line (set_type Error out)} \<or>
     (\<exists>n. fits_llong n \<and> v = set_integer n (set_type Integer out))))"
    by (cases "to_integer line") (auto simp: after_line_def dest: to_integer_fits)
  with any assms show ?thesis by (intro plain) auto
next
  case not_line: False
  show ?thesis
  proof (cases "c = CHR ''$''")
    case True
    with assms bulk show ?thesis by (simp add: after_line_def)
  next
    case False
    with not_line have branch: "after_line input' depth c line q out error =
      (case to_integer line of
         None \<Rightarrow> (Malformed, q, out, ''array length is not a valid number'')
       | Some count \<Rightarrow>
           if count = -1 then (Ok, q, set_null (set_type Array out), error)
           else if count < -1 then (Malformed, q, set_type Array out, ''negative array length'')
           else parse_elements (\<lambda>p v e. parse_value input' p v e (depth + 1))
                  0 count q (set_type Array out) error)" for input'
      by (simp add: after_line_def)
    show ?thesis
    proof (cases "\<exists>count. to_integer line = Some count \<and> 0 \<le> count")
      case True
      then obtain count where "to_integer line = Some count" "0 \<le> count" by blast
      with assms elements show ?thesis by (simp add: branch)
    next
      case False
      show ?thesis
        by (rule plain) (use assms False in \<open>auto simp: branch split: option.splits if_splits\<close>)
    qed
  qed
qed

lemma parse_value_advances: "advances (length input) (\<lambda>p v e. parse_value input p v e depth)"
proof (induction "nat (kMaxDepth + 1 - depth)" arbitrary: depth rule: less_induct)
  case less
  show ?case unfolding advances_def
  proof (intro allI impI)
    fix p v e p' v' e'
    assume p: "p \<le> length input" and "parse_value input p v e depth = (Ok, p', v', e')"
    from this(2) show "p < p' \<and> p' \<le> length input \<and> e' = e"
    proof (cases rule: parse_value_cases)
      case (line q ln)
      note q = read_line_Ok_D [OF line(4)]
      have "advances (length input) (\<lambda>p v e. parse_value input p v e (depth + 1))"
        using less line(1) by simp
      note els = parse_elements_advances [OF _ this]
      from line(5) show ?thesis
      proof (cases rule: after_line_cases)
        case bulk
        with parse_bulk_Ok_D(1-3) [OF bulk(1)] q(2,3) show ?thesis by simp
      next
        case (elements count)
        with els [OF elements(3)] q(2,3) show ?thesis by simp
      qed (use q(2,3) in simp)
    qed simp_all
  qed
qed

subsection \<open>Bytes outside a value play no part\<close>

lemma parse_value_Ok_bounds:
  "parse_value input pos out error depth = (Ok, p, v, e) \<Longrightarrow> pos \<le> length input \<Longrightarrow>
   pos < p \<and> p \<le> length input \<and> e = error"
  using advancesD [OF parse_value_advances] by simp

text \<open>A buffer with the same bytes up to the end of the value gives the same result.\<close>

lemma parse_value_agree:
  "parse_value input pos out error depth = (Ok, p, v, e) \<Longrightarrow> take p input' = take p input \<Longrightarrow>
   parse_value input' pos out error depth = (Ok, p, v, e)"
proof (induction "nat (kMaxDepth + 1 - depth)" arbitrary: depth pos out error p v e rule: less_induct)
  case less
  from less.prems(1) show ?case
  proof (cases rule: parse_value_cases)
    case (line q ln)
    note q = read_line_Ok_D(2,3) [OF line(4)]
    have p: "q \<le> p \<and> p \<le> length input" using line(5)
    proof (cases rule: after_line_cases)
      case bulk
      with parse_bulk_Ok_D(1,2) [OF bulk(1)] q show ?thesis by simp
    next
      case (elements count)
      with parse_elements_advances [OF elements(3) parse_value_advances] q show ?thesis by simp
    qed (use q in simp)
    have inside: "pos < length input'"
      using agree_length [OF less.prems(2)] p q by simp
    have byte: "input' ! pos = input ! pos"
      using agree_nth [OF less.prems(2)] p q line(2) by simp
    have ln: "read_line input' (pos + 1) [] = (LineOk, q, ln)"
      by (rule read_line_agree_Ok [OF line(4)]) (rule take_take_min_eq [OF less.prems(2) p [THEN conjunct1]])
    have el: "parse_value input' p' default_value e' (depth + 1) = (Ok, r, v', e'')"
      if "parse_value input p' default_value e' (depth + 1) = (Ok, r, v', e'')" "r \<le> p" for p' e' r v' e''
      by (rule less.hyps [OF _ that(1)]) (use line(1) that(2) less.prems(2) in \<open>auto intro: take_take_min_eq\<close>)
    have "after_line input' depth (input ! pos) ln q out error = (Ok, p, v, e)" using line(5)
    proof (cases rule: after_line_cases)
      case bulk
      with parse_bulk_Ok_D(4) [OF bulk(1) q(2) less.prems(2)] show ?thesis by simp
    next
      case (elements count)
      show ?thesis unfolding elements(4)
        by (rule parse_elements_agree [OF elements(3) parse_value_advances q(2)]) (rule el)
    qed
    with line(1,3) inside byte ln show ?thesis by (simp add: parse_value_line)
  qed simp_all
qed

text \<open>More bytes never rescue a malformed buffer, and never change the error.\<close>

lemma parse_value_Malformed_more:
  "parse_value input pos out error depth = (Malformed, p, v, e) \<Longrightarrow>
   parse_value (input @ extra) pos out error depth = (Malformed, p, v, e)"
proof (induction "nat (kMaxDepth + 1 - depth)" arbitrary: depth pos out error p v e rule: less_induct)
  case less
  from less.prems show ?case
  proof (cases rule: parse_value_cases)
    case unknown
    then show ?thesis by (simp add: parse_value_unknown nth_append)
  next
    case (bad_line ln)
    then show ?thesis by (simp add: parse_value_line nth_append read_line_more)
  next
    case (line q ln)
    note q = read_line_Ok_D(3) [OF line(4)]
    have el: "parse_value (input @ extra) p' default_value e' (depth + 1) = (st, r, v', e'')"
      if "parse_value input p' default_value e' (depth + 1) = (st, r, v', e'')" "st \<noteq> Incomplete"
        "p' \<le> length input" for p' e' st r v' e''
    proof (cases st)
      case Ok
      note here = that(1) [unfolded Ok]
      from parse_value_Ok_bounds [OF here that(3)] have "take r (input @ extra) = take r input"
        by simp
      from parse_value_agree [OF here this] Ok show ?thesis by simp
    next
      case Malformed
      from less.hyps [OF _ that(1) [unfolded Malformed]] line(1) Malformed show ?thesis by simp
    qed (use that(2) in simp)
    have "after_line (input @ extra) depth (input ! pos) ln q out error = (Malformed, p, v, e)"
      using line(5)
    proof (cases rule: after_line_cases)
      case bulk
      with parse_bulk_Malformed_more [OF bulk(1) q] show ?thesis by simp
    next
      case (elements count)
      show ?thesis unfolding elements(4)
        by (rule parse_elements_Malformed_agree [OF elements(3) parse_value_advances q])
          (rule el; assumption)
    qed
    with line(1-4) show ?thesis by (simp add: parse_value_line nth_append read_line_more)
  qed (simp_all add: parse_value_too_deep)
qed

end
