(* ===== verification/Framing.thy ===== *)
theory Framing
  imports Prelude
begin

text \<open>
  The interfaces between byte streams and the values in them.

  \<^item> \<open>codec\<close>: a decoder that reads back what an encoder wrote, whatever follows. The RESP
    serializer and the fields of the append-only log provide it; unique readability of
    concatenated encodings is what their clients use.
  \<^item> \<open>framing\<close>: an incremental parser, asked again and again about a buffer that grows at its
    end and is consumed at its front. \<open>parse\<close> of \<open>src/resp.cpp\<close> provides it; the read loop of
    \<open>src/server.cpp\<close> and the reply loop of \<open>benchmarks/bench.cpp\<close> rely on it. \<open>drain\<close> is
    the loop both write: take complete values off the front until there is none.
  \<^item> \<open>framed_codec\<close>: both at once.
\<close>

datatype 'a outcome = Complete 'a nat | More | Bad string

function drain :: "(string \<Rightarrow> 'a outcome) \<Rightarrow> string \<Rightarrow> 'a list \<times> string \<times> string option" where
  "drain step buf =
     (case step buf of
        Complete v n \<Rightarrow>
          if 0 < n \<and> n \<le> length buf
          then (case drain step (drop n buf) of (vs, rest, bad) \<Rightarrow> (v # vs, rest, bad))
          else ([], buf, None)
      | More \<Rightarrow> ([], buf, None)
      | Bad e \<Rightarrow> ([], buf, Some e))"
  by pat_completeness auto
termination
  by (relation "measure (\<lambda>(step, buf). length buf)") auto

declare drain.simps [simp del]

subsection \<open>Encoding and decoding\<close>

locale codec =
  fixes encode :: "'a \<Rightarrow> string"
    and decode :: "string \<Rightarrow> ('a \<times> string) option"
    and ok :: "'a \<Rightarrow> bool"
  assumes decode_encode: "ok x \<Longrightarrow> decode (encode x @ rest) = Some (x, rest)"
begin

lemma prefix_free:
  assumes "ok x" "ok y" "encode x @ s = encode y @ t"
  shows "x = y \<and> s = t"
proof -
  have "Some (x, s) = decode (encode x @ s)" by (simp only: decode_encode [OF assms(1)])
  also have "\<dots> = decode (encode y @ t)" by (simp only: assms(3))
  also have "\<dots> = Some (y, t)" by (simp only: decode_encode [OF assms(2)])
  finally show ?thesis by simp
qed

text \<open>A stream of encodings determines the values in it, given how many there are.\<close>

lemma stream_inject:
  "list_all ok xs \<Longrightarrow> list_all ok ys \<Longrightarrow> length xs = length ys \<Longrightarrow>
   concat (map encode xs) @ s = concat (map encode ys) @ t \<Longrightarrow> xs = ys \<and> s = t"
proof (induction xs arbitrary: ys)
  case (Cons x xs)
  then obtain y ys' where ys: "ys = y # ys'" by (cases ys) auto
  with Cons.prems have "encode x @ concat (map encode xs) @ s = encode y @ concat (map encode ys') @ t"
    by simp
  moreover have "ok x" "ok y"
    using Cons.prems(1,2) ys by simp_all
  ultimately have "x = y \<and> concat (map encode xs) @ s = concat (map encode ys') @ t"
    using prefix_free by blast
  with Cons.IH [of ys'] Cons.prems ys show ?case by simp
qed simp

end

subsection \<open>Incremental parsing\<close>

locale framing =
  fixes step :: "string \<Rightarrow> 'a outcome"
  assumes step_bounds: "step buf = Complete v n \<Longrightarrow> 0 < n \<and> n \<le> length buf"
    and step_agree: "step buf = Complete v n \<Longrightarrow> take n buf' = take n buf \<Longrightarrow> step buf' = Complete v n"
    and step_bad: "step buf = Bad e \<Longrightarrow> step (buf @ extra) = Bad e"
begin

lemma step_more: "step buf = Complete v n \<Longrightarrow> step (buf @ extra) = Complete v n"
  by (rule step_agree) (use step_bounds in auto)

text \<open>A buffer that ends inside a value is neither accepted nor refused.\<close>

lemma step_inside:
  assumes "step buf = Complete v n" "k < n"
  shows "step (take k buf) = More"
proof (cases "step (take k buf)")
  case (Complete w m)
  have "m \<le> k" using step_bounds [OF Complete] by simp
  moreover have "step buf = Complete w m"
    using step_more [OF Complete, of "drop k buf"] by simp
  ultimately show ?thesis using assms by simp
next
  case (Bad e)
  have "step buf = Bad e"
    using step_bad [OF Bad, of "drop k buf"] by simp
  with assms show ?thesis by simp
qed

lemma drain_Value:
  "step buf = Complete v n \<Longrightarrow>
   drain step buf = (case drain step (drop n buf) of (vs, rest, bad) \<Rightarrow> (v # vs, rest, bad))"
  using step_bounds by (subst drain.simps) auto

lemma drain_More: "step buf = More \<Longrightarrow> drain step buf = ([], buf, None)"
  by (subst drain.simps) simp

lemma drain_Bad: "step buf = Bad e \<Longrightarrow> drain step buf = ([], buf, Some e)"
  by (subst drain.simps) simp

text \<open>
  Chunking does not matter: draining what has arrived, and then the rest with the next
  bytes, gives the values that draining everything at once gives.
\<close>

lemma drain_append:
  "drain step buf = (vs, rest, None) \<Longrightarrow>
   drain step (buf @ extra) =
     (case drain step (rest @ extra) of (ws, rest', bad) \<Rightarrow> (vs @ ws, rest', bad))"
proof (induction "length buf" arbitrary: buf vs rule: less_induct)
  case less
  show ?case
  proof (cases "step buf")
    case (Complete v n)
    note n = step_bounds [OF Complete]
    obtain ws where ws: "drain step (drop n buf) = (ws, rest, None)" "vs = v # ws"
      using less.prems drain_Value [OF Complete] by (auto split: prod.splits)
    have "drain step (drop n buf @ extra) =
        (case drain step (rest @ extra) of (us, rest', bad) \<Rightarrow> (ws @ us, rest', bad))"
      by (rule less.hyps [OF _ ws(1)]) (use n in auto)
    with n drain_Value [OF step_more [OF Complete, of extra]] ws(2) show ?thesis
      by (simp split: prod.splits)
  next
    case More
    with less.prems show ?thesis by (simp add: drain_More split: prod.splits)
  next
    case (Bad e)
    with less.prems show ?thesis by (simp add: drain_Bad)
  qed
qed

text \<open>What is left undrained is the tail of the buffer, and it holds no complete value.\<close>

lemma drain_rest:
  "drain step buf = (vs, rest, bad) \<Longrightarrow>
   (\<exists>k. rest = drop k buf) \<and> step rest = (case bad of None \<Rightarrow> More | Some e \<Rightarrow> Bad e)"
proof (induction "length buf" arbitrary: buf vs rule: less_induct)
  case less
  show ?case
  proof (cases "step buf")
    case (Complete v n)
    obtain ws where ws: "drain step (drop n buf) = (ws, rest, bad)"
      using less.prems drain_Value [OF Complete] by (auto split: prod.splits)
    have "(\<exists>k. rest = drop k (drop n buf)) \<and> step rest = (case bad of None \<Rightarrow> More | Some e \<Rightarrow> Bad e)"
      by (rule less.hyps [OF _ ws]) (use step_bounds [OF Complete] in auto)
    then show ?thesis by auto
  next
    case More
    with less.prems show ?thesis by (auto simp: drain_More intro: exI [of _ 0])
  next
    case (Bad e)
    with less.prems show ?thesis by (auto simp: drain_Bad intro: exI [of _ 0])
  qed
qed

end

subsection \<open>Both\<close>

locale framed_codec = framing step
  for step :: "string \<Rightarrow> 'a outcome" +
  fixes encode :: "'a \<Rightarrow> string"
    and ok :: "'a \<Rightarrow> bool"
  assumes step_encode: "ok v \<Longrightarrow> step (encode v @ rest) = Complete v (length (encode v))"
begin

definition read_one :: "string \<Rightarrow> ('a \<times> string) option" where
  "read_one s = (case step s of Complete v n \<Rightarrow> Some (v, drop n s) | _ \<Rightarrow> None)"

text \<open>Draining a stream of encodings gives the values, in order.\<close>

lemma drain_encodings:
  "list_all ok vs \<Longrightarrow>
   drain step (concat (map encode vs) @ rest) =
     (case drain step rest of (ws, rest', bad) \<Rightarrow> (vs @ ws, rest', bad))"
proof (induction vs)
  case (Cons v vs)
  then have "step (encode v @ concat (map encode vs) @ rest) = Complete v (length (encode v))"
    by (simp add: step_encode)
  from drain_Value [OF this] Cons show ?case
    by (simp split: prod.splits)
qed (simp split: prod.splits)

end

sublocale framed_codec \<subseteq> codec encode read_one ok
  by unfold_locales (simp add: read_one_def step_encode)

end
