(* ===== verification/Resp_Roundtrip.thy ===== *)
theory Resp_Roundtrip
  imports Resp_Laws Framing
begin

text \<open>
  Parsing and serializing are inverse to each other.

  \<open>canonical\<close> describes the values the wire format can carry: the fields a type does not use
  have their default, a line holds no CR or LF, numbers and lengths are \<open>long long\<close>s.
  \<open>nesting\<close> is the number of levels of a value, a scalar being one. Every value the parser
  builds is canonical and within the depth limit; every such value, serialized anywhere in a
  buffer, is read back exactly.
\<close>

fun canonical :: "RespValue \<Rightarrow> bool" where
  "canonical (RespValue t s n es is_null) =
     (case t of
        SimpleString \<Rightarrow> one_line s \<and> n = 0 \<and> es = [] \<and> \<not> is_null
      | Error \<Rightarrow> one_line s \<and> n = 0 \<and> es = [] \<and> \<not> is_null
      | Integer \<Rightarrow> s = [] \<and> fits_llong n \<and> es = [] \<and> \<not> is_null
      | BulkString \<Rightarrow>
          n = 0 \<and> es = [] \<and> (if is_null then s = [] else int (length s) \<le> LLONG_MAX)
      | Array \<Rightarrow>
          s = [] \<and> n = 0 \<and>
          (if is_null then es = [] else int (length es) \<le> LLONG_MAX \<and> list_all canonical es))"

fun nesting :: "RespValue \<Rightarrow> int" where
  "nesting (RespValue t s n es is_null) = 1 + foldr max (map nesting es) 0"

lemma nesting_pos: "1 \<le> nesting v"
proof (cases v)
  case (RespValue t s n es is_null)
  have "0 \<le> foldr max ks (0::int)" for ks by (induction ks) auto
  with RespValue show ?thesis by simp
qed

lemma foldr_max_le_iff: "foldr max ks (0::int) \<le> b \<longleftrightarrow> 0 \<le> b \<and> (\<forall>k \<in> set ks. k \<le> b)"
  by (induction ks) auto

lemma nesting_le_iff:
  "nesting (RespValue t s n es is_null) \<le> b \<longleftrightarrow> 1 \<le> b \<and> (\<forall>e \<in> set es. nesting e \<le> b - 1)"
proof -
  have "nesting (RespValue t s n es is_null) \<le> b \<longleftrightarrow> foldr max (map nesting es) 0 \<le> b - 1"
    by (simp only: nesting.simps le_diff_eq add.commute)
  then show ?thesis unfolding foldr_max_le_iff by auto
qed

declare nesting.simps [simp del]

subsection \<open>Parsed values are canonical\<close>

text \<open>A successful loop appends as many elements as it had turns, each of them parsed.\<close>

lemma parse_elements_collects:
  "parse_elements pv i count pos out error = (Ok, p', v', e') \<Longrightarrow> advances N pv \<Longrightarrow> pos \<le> N \<Longrightarrow>
   \<exists>es. v' = set_elements (rv_elements out @ es) out \<and> length es = nat (count - i) \<and>
     (\<forall>v \<in> set es. \<exists>p q e. p \<le> N \<and> pv p default_value error = (Ok, q, v, e))"
proof (induction "nat (count - i)" arbitrary: i pos out)
  case 0
  then have "v' = set_elements (rv_elements out @ []) out" "length [] = nat (count - i)"
    by (cases out; simp add: field_defs)+
  then show ?case by fastforce
next
  case (Suc k)
  then have i: "i < count" by simp
  from Suc.prems(1) i obtain p v e where el: "pv pos default_value error = (Ok, p, v, e)"
    and rest: "parse_elements pv (i + 1) count p (push_element out v) e = (Ok, p', v', e')"
    by (rule parse_elements_turn)
  have here: "p \<le> N" "e = error"
    using advancesD [OF Suc.prems(2) el Suc.prems(3)] by auto
  have "k = nat (count - (i + 1))"
    using Suc.hyps(2) i by simp
  from Suc.hyps(1) [OF this rest [unfolded here(2)] Suc.prems(2) here(1)]
  obtain es where es: "v' = set_elements (rv_elements (push_element out v) @ es) (push_element out v)"
    "length es = nat (count - (i + 1))"
    "\<forall>v \<in> set es. \<exists>p q e. p \<le> N \<and> pv p default_value error = (Ok, q, v, e)"
    by blast
  have "v' = set_elements (rv_elements out @ v # es) out" "length (v # es) = nat (count - i)"
    using es(1,2) i by (simp_all add: field_defs)
  moreover have "\<forall>u \<in> set (v # es). \<exists>p q e. p \<le> N \<and> pv p default_value error = (Ok, q, u, e)"
    using es(3) el Suc.prems(3) by auto
  ultimately show ?case by blast
qed

lemma parse_value_canonical:
  "parse_value input pos default_value error depth = (Ok, p, v, e) \<Longrightarrow> pos \<le> length input \<Longrightarrow>
   canonical v \<and> nesting v \<le> kMaxDepth + 1 - depth"
proof (induction "nat (kMaxDepth + 1 - depth)" arbitrary: depth pos error p v e rule: less_induct)
  case less
  from less.prems(1) show ?case
  proof (cases rule: parse_value_cases)
    case (line q ln)
    note q = read_line_Ok_D(3,5) [OF line(4)]
    from line(5) show ?thesis
    proof (cases rule: after_line_cases)
      case plain
      then have "v \<in> {set_string ln (set_type SimpleString default_value),
          set_string ln (set_type Error default_value), set_null (set_type Array default_value)} \<or>
          (\<exists>n. fits_llong n \<and> v = set_integer n (set_type Integer default_value))"
        by simp
      with q(2) line(1) show ?thesis by (auto simp: field_defs nesting_le_iff)
    next
      case bulk
      with q(1) line(1) show ?thesis
        by (auto simp: parse_bulk_eq field_defs nesting_le_iff sv_substr_def dest!: to_integer_fits
          fits_llong_D split: option.splits if_splits)
    next
      case (elements count)
      obtain es where es: "v = set_elements es (set_type Array default_value)" "length es = nat count"
        "\<forall>v \<in> set es. \<exists>p q e. p \<le> length input \<and>
           parse_value input p default_value error (depth + 1) = (Ok, q, v, e)"
        using parse_elements_collects [OF elements(3) parse_value_advances q(1)]
        by (auto simp: field_defs)
      have "canonical u \<and> nesting u \<le> kMaxDepth + 1 - (depth + 1)" if "u \<in> set es" for u
        using es(3) that less.hyps [of "depth + 1"] line(1) by fastforce
      with es(1,2) elements(1,2) line(1) show ?thesis
        by (auto simp: field_defs nesting_le_iff list_all_iff dest!: to_integer_fits fits_llong_D)
    qed
  qed simp_all
qed

subsection \<open>Serialized values parse back\<close>

lemma serialize_nonempty [simp]: "serialize v \<noteq> []"
  by (cases v) (auto split: RespType.splits)

text \<open>A type byte and its line, wherever they stand in the buffer.\<close>

lemma parse_value_header:
  assumes "depth \<le> kMaxDepth" "known_prefix c" "one_line s"
  shows "parse_value (pre @ c # s @ CR # LF # rest) (length pre) out error depth =
    after_line (pre @ c # s @ CR # LF # rest) depth c s (length pre + length s + 3) out error"
proof -
  have "read_line ((pre @ [c]) @ s @ CR # LF # rest) (length (pre @ [c])) [] =
      (LineOk, length (pre @ [c]) + length s + 2, s)"
    by (rule read_line_written [OF assms(3)])
  then have "read_line (pre @ c # s @ CR # LF # rest) (length pre + 1) [] =
      (LineOk, length pre + length s + 3, s)"
    by (simp add: numeral_3_eq_3)
  with assms show ?thesis by (simp add: parse_value_line nth_append)
qed

lemma known_prefixes [simp]:
  "known_prefix (CHR ''+'')" "known_prefix (CHR ''-'')" "known_prefix (CHR '':'')"
  "known_prefix (CHR ''$'')" "known_prefix (CHR ''*'')"
  by (simp_all add: known_prefix_def)

lemma parse_bulk_written:
  assumes "int (length s) \<le> LLONG_MAX"
  shows "parse_bulk (pre @ s @ CR # LF # rest) (length pre) (to_string (int (length s))) out error =
    (Ok, length pre + length s + 2, set_string s (set_type BulkString out), error)"
proof -
  have "fits_llong (int (length s))"
    using assms by (simp add: fits_llong_def LLONG_MIN_def)
  then show ?thesis
    by (simp add: parse_bulk_eq nth_append sv_substr_def)
qed

lemma to_integer_minus_one [simp]: "to_integer ''-1'' = Some (- 1)"
  by (simp add: to_integer_def from_chars_def digits_value_def is_digit_def digit_val_def llong_defs)

lemma parse_elements_written:
  assumes "\<And>e pre rest error. e \<in> set es \<Longrightarrow>
    parse_value (pre @ serialize e @ rest) (length pre) default_value error depth =
      (Ok, length pre + length (serialize e), e, error)"
  shows "parse_elements
      (\<lambda>p v w. parse_value (pre @ concat (map serialize es) @ rest) p v w depth)
      i (i + int (length es)) (length pre) out error =
    (Ok, length pre + length (concat (map serialize es)), set_elements (rv_elements out @ es) out, error)"
  using assms
proof (induction es arbitrary: pre i out)
  case Nil
  then show ?case by (cases out) (simp add: field_defs)
next
  case (Cons e es)
  have first: "parse_value (pre @ concat (map serialize (e # es)) @ rest) (length pre) default_value error depth =
      (Ok, length (pre @ serialize e), e, error)"
    using Cons.prems [of e pre "concat (map serialize es) @ rest" error] by simp
  have "parse_elements
      (\<lambda>p v w. parse_value ((pre @ serialize e) @ concat (map serialize es) @ rest) p v w depth)
      (i + 1) (i + 1 + int (length es)) (length (pre @ serialize e)) (push_element out e) error =
    (Ok, length (pre @ serialize e) + length (concat (map serialize es)),
      set_elements (rv_elements (push_element out e) @ es) (push_element out e), error)"
    by (rule Cons.IH) (use Cons.prems in auto)
  then show ?case
    by (subst parse_elements_next
        [where pv = "\<lambda>p v w. parse_value (pre @ concat (map serialize (e # es)) @ rest) p v w depth",
         OF _ first])
      (simp_all add: field_defs algebra_simps)
qed

lemma parse_value_serialize:
  "canonical v \<Longrightarrow> nesting v \<le> kMaxDepth + 1 - depth \<Longrightarrow>
   parse_value (pre @ serialize v @ rest) (length pre) default_value error depth =
     (Ok, length pre + length (serialize v), v, error)"
proof (induction v arbitrary: pre rest error depth rule: RespValue.induct)
  case (RespValue t s n es is_null)
  have depth: "depth \<le> kMaxDepth"
    using RespValue.prems(2) nesting_pos [of "RespValue t s n es is_null"] by simp
  note header = parse_value_header [OF depth]
  show ?case
  proof (cases t)
    case BulkString
    show ?thesis
    proof (cases is_null)
      case True
      with True BulkString RespValue.prems(1) header [of "CHR ''$''" "''-1''" pre rest default_value error]
      show ?thesis by (simp add: after_line_def parse_bulk_eq field_defs)
    next
      case False
      let ?head = "pre @ CHR ''$'' # to_string (int (length s)) @ crlf"
      have "parse_bulk (?head @ s @ CR # LF # rest) (length ?head) (to_string (int (length s))) default_value error =
        (Ok, length ?head + length s + 2, set_string s (set_type BulkString default_value), error)"
        by (rule parse_bulk_written) (use False BulkString RespValue.prems(1) in simp)
      with False BulkString RespValue.prems(1)
        header [of "CHR ''$''" "to_string (int (length s))" pre "s @ CR # LF # rest" default_value error]
      show ?thesis by (simp add: after_line_def field_defs algebra_simps numeral_3_eq_3)
    qed
  next
    case Array
    show ?thesis
    proof (cases is_null)
      case True
      with True Array RespValue.prems(1) header [of "CHR ''*''" "''-1''" pre rest default_value error]
      show ?thesis by (simp add: after_line_def field_defs)
    next
      case False
      let ?head = "pre @ CHR ''*'' # to_string (int (length es)) @ crlf"
      let ?body = "concat (map serialize es)"
      have es: "int (length es) \<le> LLONG_MAX" "\<forall>e \<in> set es. canonical e"
        using False Array RespValue.prems(1) by (simp_all add: list_all_iff)
      then have count: "to_integer (to_string (int (length es))) = Some (int (length es))"
        by (simp add: fits_llong_def LLONG_MIN_def)
      have "parse_elements (\<lambda>p v w. parse_value (?head @ ?body @ rest) p v w (depth + 1))
          0 (0 + int (length es)) (length ?head) (set_type Array default_value) error =
        (Ok, length ?head + length ?body,
          set_elements (rv_elements (set_type Array default_value) @ es) (set_type Array default_value), error)"
        by (rule parse_elements_written)
          (use RespValue.IH RespValue.prems(2) es in \<open>auto simp: nesting_le_iff\<close>)
      with False Array RespValue.prems(1) count
        header [of "CHR ''*''" "to_string (int (length es))" pre "?body @ rest" default_value error]
      show ?thesis by (simp add: after_line_def field_defs algebra_simps numeral_3_eq_3)
    qed
  next
    case SimpleString
    with RespValue.prems(1) header [of "CHR ''+''" s pre rest default_value error]
    show ?thesis by (simp add: after_line_def field_defs)
  next
    case Error
    with RespValue.prems(1) header [of "CHR ''-''" s pre rest default_value error]
    show ?thesis by (simp add: after_line_def field_defs)
  next
    case Integer
    with RespValue.prems(1) header [of "CHR '':''" "to_string n" pre rest default_value error]
    show ?thesis by (simp add: after_line_def field_defs)
  qed
qed

subsection \<open>The parser as an incremental parser\<close>

text \<open>What a caller of \<open>parse\<close> looks at: the status, and with it the value or the error.\<close>

definition parse_outcome :: "string \<Rightarrow> RespValue outcome" where
  "parse_outcome buf =
     (let result = parse buf in
      case pr_status result of
        Ok \<Rightarrow> Complete (pr_value result) (pr_consumed result)
      | Incomplete \<Rightarrow> More
      | Malformed \<Rightarrow> Bad (pr_error result))"

definition within_depth :: "RespValue \<Rightarrow> bool" where
  "within_depth v \<longleftrightarrow> canonical v \<and> nesting v \<le> kMaxDepth"

lemma parse_outcome_Complete_iff:
  "parse_outcome buf = Complete v n \<longleftrightarrow>
     (\<exists>e. parse_value buf 0 default_value [] 1 = (Ok, n, v, e))"
  by (auto simp: parse_outcome_def parse_def Let_def split: prod.splits ParseStatus.splits)

lemma parse_outcome_Bad_iff:
  "parse_outcome buf = Bad e \<longleftrightarrow>
     (\<exists>p v. parse_value buf 0 default_value [] 1 = (Malformed, p, v, e))"
  by (auto simp: parse_outcome_def parse_def Let_def split: prod.splits ParseStatus.splits)

lemma parse_outcome_More_iff: "parse_outcome buf = More \<longleftrightarrow> pr_status (parse buf) = Incomplete"
  by (auto simp: parse_outcome_def Let_def split: ParseStatus.splits)

interpretation resp: framed_codec parse_outcome serialize within_depth
proof unfold_locales
  fix buf buf' v n
  assume "parse_outcome buf = Complete v n"
  then obtain e where r: "parse_value buf 0 default_value [] 1 = (Ok, n, v, e)"
    by (auto simp: parse_outcome_Complete_iff)
  from parse_value_Ok_bounds [OF r] show "0 < n \<and> n \<le> length buf" by simp
  assume "take n buf' = take n buf"
  from parse_value_agree [OF r this] show "parse_outcome buf' = Complete v n"
    by (auto simp: parse_outcome_Complete_iff)
next
  fix buf e extra
  assume "parse_outcome buf = Bad e"
  then show "parse_outcome (buf @ extra) = Bad e"
    by (auto simp: parse_outcome_Bad_iff dest: parse_value_Malformed_more)
next
  fix v rest
  assume "within_depth v"
  then have "canonical v" "nesting v \<le> kMaxDepth + 1 - 1"
    by (simp_all add: within_depth_def)
  from parse_value_serialize [OF this, of "[]" rest "[]"]
  show "parse_outcome (serialize v @ rest) = Complete v (length (serialize v))"
    by (simp add: parse_outcome_Complete_iff)
qed

lemma parsed_within_depth: "parse_outcome buf = Complete v n \<Longrightarrow> within_depth v"
  using parse_value_canonical by (fastforce simp: parse_outcome_Complete_iff within_depth_def)

lemma parse_Ok_iff:
  "pr_status (parse buf) = Ok \<longleftrightarrow> (\<exists>v n. parse_outcome buf = Complete v n)"
  by (auto simp: parse_outcome_def Let_def split: ParseStatus.splits)

lemma parse_outcome_Ok:
  "pr_status (parse buf) = Ok \<Longrightarrow> parse_outcome buf = Complete (pr_value (parse buf)) (pr_consumed (parse buf))"
  by (simp add: parse_outcome_def Let_def)

lemma parse_outcome_Malformed:
  "pr_status (parse buf) = Malformed \<Longrightarrow> parse_outcome buf = Bad (pr_error (parse buf))"
  by (simp add: parse_outcome_def Let_def)

lemma parse_eq_Complete:
  "parse_outcome buf = Complete v n \<longleftrightarrow>
     parse buf = \<lparr>pr_status = Ok, pr_value = v, pr_consumed = n, pr_error = []\<rparr>"
proof -
  have "parse_outcome buf = Complete v n \<longleftrightarrow> parse_value buf 0 default_value [] 1 = (Ok, n, v, [])"
    using parse_value_Ok_bounds by (fastforce simp: parse_outcome_Complete_iff)
  then show ?thesis
    by (auto simp: parse_def split: prod.splits)
qed

lemma parse_within_depth:
  "within_depth v \<Longrightarrow> parse (serialize v @ rest) =
    \<lparr>pr_status = Ok, pr_value = v, pr_consumed = length (serialize v), pr_error = []\<rparr>"
  using resp.step_encode [of v rest] by (simp add: parse_eq_Complete)

text \<open>The bytes of values drain to just these values.\<close>

lemma drain_Nil: "drain parse_outcome [] = ([], [], None)"
  by (intro resp.drain_More) (simp add: parse_outcome_More_iff parse_def kMaxDepth_def parse_value.simps [of "[]"])

lemma drain_serialized:
  "list_all within_depth vs \<Longrightarrow> drain parse_outcome (concat (map serialize vs)) = (vs, [], None)"
  using resp.drain_encodings [of vs "[]"] by (simp add: drain_Nil)

lemma within_depth_integer [simp]: "within_depth (make_integer n) \<longleftrightarrow> fits_llong n"
  by (simp add: within_depth_def make_defs nesting_le_iff kMaxDepth_def)

subsection \<open>Nested arrays\<close>

text \<open>The headers of \<open>n\<close> arrays of one element, each inside the one before.\<close>

definition array_headers :: "nat \<Rightarrow> string" where
  "array_headers n = concat (replicate n (''*1'' @ crlf))"

fun nested_value :: "nat \<Rightarrow> RespValue \<Rightarrow> RespValue" where
  "nested_value 0 v = v"
| "nested_value (Suc n) v = make_array [nested_value n v]"

lemma serialize_nested: "serialize (nested_value n v) = array_headers n @ serialize v"
  by (induction n)
    (simp_all add: array_headers_def make_defs to_string_def magnitude.simps digit_char_def char_of_def)

lemma nested_within:
  "within_depth v \<Longrightarrow> nesting v = 1 \<Longrightarrow> canonical (nested_value n v) \<and> nesting (nested_value n v) = int n + 1"
  by (induction n) (simp_all add: make_defs within_depth_def llong_defs nesting.simps)

lemma to_integer_one: "to_integer ''1'' = Some 1"
  by code_simp

lemma parse_elements_one:
  "parse_elements pv 0 1 pos out error =
    (case pv pos default_value error of (st, p, v, e) \<Rightarrow>
       if st \<noteq> Ok then (st, p, out, e) else (Ok, p, push_element out v, e))"
  by (subst parse_elements.simps) (simp split: prod.split)

lemma array_header_step:
  assumes "depth \<le> kMaxDepth"
  shows "parse_value (pre @ ''*1'' @ crlf @ tail) (length pre) out error depth =
    (case parse_value (pre @ ''*1'' @ crlf @ tail) (length pre + 4) default_value error (depth + 1) of
       (st, p, v, e) \<Rightarrow>
         if st \<noteq> Ok then (st, p, set_type Array out, e)
         else (Ok, p, push_element (set_type Array out) v, e))"
proof -
  have "parse_value (pre @ CHR ''*'' # ''1'' @ CR # LF # tail) (length pre) out error depth =
      after_line (pre @ CHR ''*'' # ''1'' @ CR # LF # tail) depth (CHR ''*'') ''1'' (length pre + length ''1'' + 3) out error"
    by (rule parse_value_header [OF assms]) (simp_all add: one_line_def)
  then show ?thesis
    by (simp add: after_line_def to_integer_one parse_elements_one add.commute)
qed

lemma array_headers_too_deep:
  "128 < depth + int n \<Longrightarrow>
   \<exists>p v. parse_value (pre @ array_headers n @ tail) (length pre) out error depth = (Malformed, p, v, depth_error)"
proof (induction n arbitrary: pre out depth)
  case 0
  then show ?case by (simp add: parse_value_too_deep kMaxDepth_def)
next
  case (Suc n)
  show ?case
  proof (cases "depth \<le> kMaxDepth")
    case False
    then show ?thesis by (simp add: parse_value_too_deep)
  next
    case True
    have "array_headers (Suc n) @ tail = ''*1'' @ crlf @ array_headers n @ tail"
      by (simp add: array_headers_def)
    moreover have "length (pre @ ''*1'' @ crlf) = length pre + 4" by simp
    moreover obtain p v where
      "parse_value ((pre @ ''*1'' @ crlf) @ array_headers n @ tail) (length (pre @ ''*1'' @ crlf))
         default_value error (depth + 1) = (Malformed, p, v, depth_error)"
      using Suc.IH [of "depth + 1" "pre @ ''*1'' @ crlf" default_value] Suc.prems by auto
    ultimately show ?thesis
      using array_header_step [OF True, of pre "array_headers n @ tail" out error]
      by (simp only: append_assoc) simp
  qed
qed

end
