(* ===== verification/Keyspace_Laws.thy ===== *)
theory Keyspace_Laws
  imports Refinement Machine Resp_Roundtrip
begin

text \<open>
  What follows from the refinement, for one command and for any list of commands.

  \<^item> The abstract machine \<open>spec_step\<close> keeps an entry per key and never cleans up; a store is
    \<open>related\<close> to it at a time if both look the same at that time and ever after. The
    interpretation \<open>keyspace\<close> of \<open>simulation\<close> gives the result for lists of requests.
  \<^item> \<open>store_ok\<close> is the invariant of the store; the interpretation \<open>store\<close> of \<open>executor\<close> gives
    it for lists of requests.
  \<^item> The last section has the laws of single commands that a client relies on.
\<close>

subsection \<open>The abstract machine\<close>

definition spec_step ::
  "Env \<Rightarrow> RespValue \<Rightarrow> (string \<Rightarrow> entry) \<Rightarrow> RespValue \<times> (string \<Rightarrow> entry) \<times> log_record list"
where
  "spec_step env req K =
     (if \<not> well_formed_request req then (bad_request, K, [])
      else case decode (words_of req) of
          Inl r \<Rightarrow> (r, K, [])
        | Inr c \<Rightarrow>
            (case spec env c (live (command_time env c) (K (key_of c))) of
               (r, e, recs) \<Rightarrow> (r, K(key_of c := e), recs)))"

definition purge :: "int \<Rightarrow> (string \<Rightarrow> entry) \<Rightarrow> string \<Rightarrow> entry" where
  "purge now K key = live now (K key)"

definition related :: "int \<Rightarrow> Store \<Rightarrow> (string \<Rightarrow> entry) \<Rightarrow> bool" where
  "related now s K \<longleftrightarrow> no_orphans s \<and> view now s = purge now K"

lemma relatedD: "related t s K \<Longrightarrow> t \<le> t' \<Longrightarrow> live t' (entry_of s k) = live t' (K k)"
  unfolding related_def view_def purge_def fun_eq_iff by (metis live_live)

lemma relatedI:
  "no_orphans s \<Longrightarrow> (\<And>k. live t (entry_of s k) = live t (K k)) \<Longrightarrow> related t s K"
  by (simp add: related_def view_def purge_def fun_eq_iff)

lemma related_later: "related t s K \<Longrightarrow> t \<le> t' \<Longrightarrow> related t' s K"
  by (rule relatedI) (simp_all add: relatedD, simp add: related_def)

lemma related_view: "no_orphans s \<Longrightarrow> related t s (view t s)"
  by (auto simp: related_def view_def purge_def live_live)

lemma related_entries: "no_orphans s \<Longrightarrow> related t s (entry_of s)"
  by (simp add: relatedI)

lemma command_time_bounds:
  "clock1 env \<le> clock2 env \<Longrightarrow> clock1 env \<le> command_time env c \<and> command_time env c \<le> clock2 env"
  by (cases c) auto

lemma implements_related:
  assumes "implements (r, s', log') env c s log" "related t s K" "t \<le> command_time env c"
    "command_time env c \<le> t'"
    "spec env c (live (command_time env c) (K (key_of c))) = (r', e', recs)"
  shows "r = r' \<and> log' = fold add_record recs log \<and> related t' s' (K(key_of c := e'))"
proof -
  let ?c = "command_time env c" and ?k = "key_of c"
  have here: "live ?c (entry_of s ?k) = live ?c (K ?k)"
    using relatedD assms(2,3) by blast
  then have facts: "r = r'" "log' = fold add_record recs log" "no_orphans s'"
    "entry_of s' = (entry_of s)(?k := e') \<or> s' = s \<and> e' = live ?c (K ?k)"
    using assms(1,5) by (simp_all add: implements_def)
  have later: "live t' (entry_of s k) = live t' (K k)" for k
    using relatedD assms(2,3,4) by (meson order_trans)
  have "live t' (entry_of s' k) = live t' ((K(?k := e')) k)" for k
    using facts(4) later [of k] live_live [OF assms(4)] by auto
  then show ?thesis using facts by (simp add: relatedI)
qed

lemma execute_simulates:
  assumes "related t s K" "t \<le> clock1 env" "clock1 env \<le> clock2 env"
    "execute_command env req s log = (r, s', log')" "spec_step env req K = (r', K', recs)"
  shows "r = r' \<and> log' = fold add_record recs log \<and> related (clock2 env) s' K'"
proof (cases "well_formed_request req")
  case False
  have "related (clock2 env) s K"
    using related_later [OF assms(1)] assms(2,3) by simp
  with False assms(4,5) show ?thesis by (auto simp: spec_step_def execute_malformed)
next
  case True
  have orphans: "no_orphans s" using assms(1) by (simp add: related_def)
  note run = execute_decode [OF True orphans, where env = env and log = log]
  show ?thesis
  proof (cases "decode (words_of req)")
    case (Inl e)
    have "related (clock2 env) s K"
      using related_later [OF assms(1)] assms(2,3) by simp
    with Inl True assms(4,5) run show ?thesis by (auto simp: spec_step_def)
  next
    case (Inr c)
    have time: "t \<le> command_time env c" "command_time env c \<le> clock2 env"
      using command_time_bounds [OF assms(3), of c] assms(2) by auto
    obtain r'' e' recs' where sp:
      "spec env c (live (command_time env c) (K (key_of c))) = (r'', e', recs')"
      by (metis prod_cases3)
    then have "r' = r'' \<and> K' = K(key_of c := e') \<and> recs = recs'"
      using assms(5) True Inr by (simp add: spec_step_def)
    moreover have "implements (r, s', log') env c s log"
      using run Inr assms(4) by simp
    ultimately show ?thesis
      using implements_related [OF _ assms(1) time sp] by blast
  qed
qed

interpretation keyspace: simulation execute_command spec_step related clock1 clock2 add_record
  by unfold_locales (rule execute_simulates)

subsection \<open>What a command can do to an entry\<close>

definition entry_ok :: "entry \<Rightarrow> bool" where
  "entry_ok e \<longleftrightarrow>
     (case e of
        None \<Rightarrow> True
      | Some (v, d) \<Rightarrow> \<not> empty_container v \<and> (case d of None \<Rightarrow> True | Some t \<Rightarrow> fits_llong t))"

definition env_ok :: "Env \<Rightarrow> bool" where
  "env_ok env \<longleftrightarrow> 0 \<le> clock1 env \<and> clock1 env \<le> LLONG_MAX"

lemma max_seconds_bound:
  "env_ok env \<Longrightarrow> n \<le> max_seconds (clock1 env) \<Longrightarrow> clock1 env + n * ticks_per_second \<le> LLONG_MAX"
  by (simp add: env_ok_def max_seconds_def whole_seconds_def time_point_max_def ticks_per_second_def)

lemma new_deadline_fits:
  assumes "env_ok env" "n \<le> max_seconds (clock1 env)" "0 < n"
  shows "fits_llong (clock1 env + n * ticks_per_second)"
  using assms max_seconds_bound [OF assms(1,2)]
  by (simp add: fits_llong_def env_ok_def ticks_per_second_def LLONG_MIN_def)

lemma with_value_ok: "entry_ok e \<Longrightarrow> entry_ok (with_value v e)"
  by (auto simp: entry_ok_def with_value_def deadline_of_def split: option.splits)

lemma live_ok: "entry_ok e \<Longrightarrow> entry_ok (live t e)"
  using live_cases [of t e] by (auto simp: entry_ok_def)

lemma spec_ok:
  assumes "env_ok env" "entry_ok e" "spec env c e = (r, e', recs)"
  shows "entry_ok e'"
  using assms
  by (cases c)
    (auto simp: with_value_ok new_deadline_fits simp del: live_simps
      split: option.splits if_splits prod.splits,
     auto simp: entry_ok_def new_deadline_fits)

text \<open>Without a record nothing changed, and neither with an error.\<close>

lemma spec_silent: "spec env c e = (r, e', []) \<Longrightarrow> e' = e"
  by (cases c) (auto split: option.splits if_splits prod.splits)

lemma spec_error: "spec env c e = (r, e', recs) \<Longrightarrow> rv_type r = Error \<Longrightarrow> e' = e \<and> recs = []"
  by (cases c)
    (auto simp: make_defs flag_def split: option.splits if_splits prod.splits Value.splits)

lemma spec_one_record: "spec env c e = (r, e', recs) \<Longrightarrow> length recs \<le> 1"
  by (cases c) (auto split: option.splits if_splits prod.splits Value.splits)

subsection \<open>The invariant of the store\<close>

text \<open>
  Deadlines only for keys that exist, no empty container, and every deadline a value of the
  clock's representation.
\<close>

definition store_ok :: "Store \<Rightarrow> bool" where
  "store_ok store \<longleftrightarrow>
     no_orphans store \<and>
     fmpred (\<lambda>k v. \<not> empty_container v) (vals store) \<and>
     fmpred (\<lambda>k deadline. fits_llong deadline) (expirations store)"

lemma store_ok_entries: "store_ok s \<longleftrightarrow> no_orphans s \<and> (\<forall>k. entry_ok (entry_of s k))"
proof
  assume "store_ok s"
  then show "no_orphans s \<and> (\<forall>k. entry_ok (entry_of s k))"
    by (auto simp: store_ok_def entry_ok_def entry_of_def fmpred_iff split: option.splits)
next
  assume ok: "no_orphans s \<and> (\<forall>k. entry_ok (entry_of s k))"
  have "\<not> empty_container v" if "fmlookup (vals s) k = Some v" for k v
    using ok that by (auto simp: entry_ok_def entry_of_def dest!: spec [where x = k])
  moreover have "fits_llong d" if d: "fmlookup (expirations s) k = Some d" for k d
  proof -
    obtain v where "fmlookup (vals s) k = Some v"
      using ok d no_orphansD by (metis not_None_eq)
    with ok d show ?thesis by (auto simp: entry_ok_def entry_of_def dest!: spec [where x = k])
  qed
  ultimately show "store_ok s" using ok by (simp add: store_ok_def fmpred_iff)
qed

lemma execute_keeps:
  assumes "store_ok s" "env_ok env" "execute_command env req s log = (r, s', log')"
  shows "store_ok s'"
proof (cases "well_formed_request req")
  case False
  with assms show ?thesis by (simp add: execute_malformed)
next
  case True
  have ok: "no_orphans s" "\<And>k. entry_ok (entry_of s k)" using assms(1) by (simp_all add: store_ok_entries)
  note run = execute_decode [OF True ok(1), where env = env and log = log]
  show ?thesis
  proof (cases "decode (words_of req)")
    case (Inl e)
    with run assms show ?thesis by simp
  next
    case (Inr c)
    obtain r'' e' recs where sp:
      "spec env c (live (command_time env c) (entry_of s (key_of c))) = (r'', e', recs)"
      by (metis prod_cases3)
    have "entry_ok e'" by (rule spec_ok [OF assms(2) live_ok [OF ok(2)] sp])
    with run Inr assms sp ok show ?thesis
      by (auto simp: implements_def store_ok_entries)
  qed
qed

interpretation store: executor execute_command env_ok store_ok
  by unfold_locales (rule execute_keeps)

subsection \<open>Frame\<close>

lemma entry_of_eqD:
  "no_orphans s \<Longrightarrow> no_orphans s' \<Longrightarrow> entry_of s' k = entry_of s k \<Longrightarrow>
   fmlookup (vals s') k = fmlookup (vals s) k \<and> fmlookup (expirations s') k = fmlookup (expirations s) k"
  by (cases "fmlookup (vals s) k"; cases "fmlookup (vals s') k") (auto simp: entry_of_def no_orphansD)

lemma implements_frame:
  assumes "implements (r, s', log') env c s log"
  shows "no_orphans s'" and "k \<noteq> key_of c \<Longrightarrow> entry_of s' k = entry_of s k"
  using assms
  by (cases "spec env c (live (command_time env c) (entry_of s (key_of c)))"; auto simp: implements_def)+

lemma execute_frame:
  assumes "no_orphans s" "execute_command env req s log = (r, s', log')"
    "well_formed_request req" "decode (words_of req) = Inr c" "k \<noteq> key_of c"
  shows "fmlookup (vals s') k = fmlookup (vals s) k \<and> fmlookup (expirations s') k = fmlookup (expirations s) k"
proof -
  have "implements (r, s', log') env c s log"
    using execute_decode [OF assms(3,1), where env = env and log = log] assms(2,4) by simp
  from implements_frame [OF this] have "no_orphans s'" "entry_of s' k = entry_of s k"
    using assms(5) by simp_all
  then show ?thesis using entry_of_eqD assms(1) by blast
qed

subsection \<open>One command on the view of a client\<close>

lemma decode_undecodable: "decode words = Inl r \<Longrightarrow> rv_type r = Error"
proof -
  have "rv_type not_an_integer = Error" by (simp add: not_an_integer_def make_defs)
  then show "decode words = Inl r \<Longrightarrow> rv_type r = Error"
    by (auto simp: decode_def build_def make_defs wrong_arity_def split: option.splits if_splits)
qed

lemma execute_command_view:
  assumes "no_orphans s" "clock1 env \<le> clock2 env" "words \<noteq> []" "decode words = Inr c"
    "spec env c (view (command_time env c) s (key_of c)) = (r, e, recs)"
  obtains s' where "execute_command env (request words) s log = (r, s', fold add_record recs log)"
    "no_orphans s'" "\<And>t. command_time env c \<le> t \<Longrightarrow> view t s' = (view t s)(key_of c := live t e)"
proof -
  obtain r0 s' log' where run: "execute_command env (request words) s log = (r0, s', log')"
    by (metis prod_cases3)
  have imp: "implements (r0, s', log') env c s log"
    using execute_decode [of "request words" s env log] assms(1,3,4) run by simp
  note sim = implements_related [OF imp related_entries [OF assms(1)] order_refl _ assms(5) [unfolded view_def]]
  have "no_orphans s'" "r0 = r" "log' = fold add_record recs log"
    using sim [of "command_time env c"] by (simp_all add: related_def)
  moreover have "view t s' = (view t s)(key_of c := live t e)" if "command_time env c \<le> t" for t
    using sim [OF that] by (auto simp: related_def view_def purge_def fun_eq_iff)
  ultimately show thesis using that run by blast
qed

text \<open>An environment whose clocks stand still; no set is read in it.\<close>

definition env_at :: "int \<Rightarrow> Env" where
  "env_at now =
     \<lparr>clock1 = now, clock2 = now, unix_time = now div ticks_per_second, set_order = (\<lambda>m. [])\<rparr>"

lemma no_orphans_empty [simp]: "no_orphans empty_store"
  by (simp add: no_orphans_def empty_store_def)

lemma store_ok_empty [simp]: "store_ok empty_store"
  by (simp add: store_ok_def no_orphans_def empty_store_def fmpred_iff)

lemma view_empty [simp]: "view t empty_store k = None"
  by (simp add: view_def entry_of_def empty_store_def)

lemma decode_verbs:
  "to_upper verb = ''DEL'' \<Longrightarrow> decode [verb, k] = Inr (Del k)"
  "to_upper verb = ''TTL'' \<Longrightarrow> decode [verb, k] = Inr (Ttl k)"
  "to_upper verb = ''EXPIRE'' \<Longrightarrow> to_integer n = Some i \<Longrightarrow> decode [verb, k, n] = Inr (Expire k i)"
  "to_upper verb = ''SET'' \<Longrightarrow> decode [verb, k, x] = Inr (Set k x)"
  "to_upper verb = ''GET'' \<Longrightarrow> decode [verb, k] = Inr (Get k)"
  "to_upper verb = ''LPUSH'' \<Longrightarrow> decode [verb, k, x] = Inr (Push LeftEnd k x)"
  "to_upper verb = ''RPUSH'' \<Longrightarrow> decode [verb, k, x] = Inr (Push RightEnd k x)"
  "to_upper verb = ''LPOP'' \<Longrightarrow> decode [verb, k] = Inr (Pop LeftEnd k)"
  "to_upper verb = ''RPOP'' \<Longrightarrow> decode [verb, k] = Inr (Pop RightEnd k)"
  "to_upper verb = ''LRANGE'' \<Longrightarrow> to_integer n = Some i \<Longrightarrow> to_integer m = Some j \<Longrightarrow> decode [verb, k, n, m] = Inr (Lrange k i j)"
  "to_upper verb = ''HSET'' \<Longrightarrow> decode [verb, k, f, x] = Inr (Hset k f x)"
  "to_upper verb = ''HGET'' \<Longrightarrow> decode [verb, k, f] = Inr (Hget k f)"
  "to_upper verb = ''SADD'' \<Longrightarrow> decode [verb, k, x] = Inr (Sadd k x)"
  "to_upper verb = ''SREM'' \<Longrightarrow> decode [verb, k, x] = Inr (Srem k x)"
  "to_upper verb = ''SISMEMBER'' \<Longrightarrow> decode [verb, k, x] = Inr (Sismember k x)"
  "to_upper verb = ''SCARD'' \<Longrightarrow> decode [verb, k] = Inr (Scard k)"
  by (simp_all add: decode_def arity_of_def build_verbs)

subsection \<open>One step of the abstract machine\<close>

lemma spec_step_cases [consumes 1, case_names error command]:
  assumes "spec_step env req K = (r, K', recs)"
    "K' = K \<Longrightarrow> recs = [] \<Longrightarrow> rv_type r = Error \<Longrightarrow> thesis"
    "\<And>c e. well_formed_request req \<Longrightarrow> decode (words_of req) = Inr c \<Longrightarrow>
       spec env c (live (command_time env c) (K (key_of c))) = (r, e, recs) \<Longrightarrow>
       K' = K(key_of c := e) \<Longrightarrow> thesis"
  shows thesis
proof (cases "well_formed_request req")
  case False
  with assms(1,2) show thesis by (auto simp: spec_step_def bad_request_def make_defs)
next
  case True
  show thesis
  proof (cases "decode (words_of req)")
    case (Inl x)
    with True assms(1,2) decode_undecodable [OF Inl] show thesis by (simp add: spec_step_def)
  next
    case (Inr c)
    then show thesis
      using True assms(1,3) by (auto simp: spec_step_def split: prod.splits)
  qed
qed

lemma spec_step_silent:
  assumes "spec_step env req K = (r, K', recs)" "clock1 env \<le> clock2 env" "clock2 env \<le> t"
    "recs = [] \<or> rv_type r = Error"
  shows "recs = [] \<and> purge t K' = purge t K"
  using assms(1)
proof (cases rule: spec_step_cases)
  case error
  then show ?thesis by simp
next
  case (command c e)
  have "e = live (command_time env c) (K (key_of c)) \<and> recs = []"
    using command(3) assms(4) spec_silent spec_error by blast
  moreover have "command_time env c \<le> t"
    using command_time_bounds [OF assms(2), of c] assms(3) by simp
  ultimately show ?thesis
    using command(4) by (auto simp: purge_def fun_eq_iff live_live)
qed

lemma spec_step_one_record: "spec_step env req K = (r, K', recs) \<Longrightarrow> length recs \<le> 1"
  by (erule spec_step_cases) (auto dest: spec_one_record)

lemma spec_step_decoded:
  "words \<noteq> [] \<Longrightarrow> decode words = Inr c \<Longrightarrow> spec_step env (request words) K =
     (case spec env c (live (command_time env c) (K (key_of c))) of
        (r, e, recs) \<Rightarrow> (r, K(key_of c := e), recs))"
  by (simp add: spec_step_def)

text \<open>Replies of a run, by the abstract machine.\<close>

lemma run_replies:
  assumes "no_orphans s" "orderly clock1 clock2 t events"
  shows "fst (run execute_command events s log) = fst (spec_run spec_step events (view t s))"
  using keyspace.run_simulates [OF related_view [OF assms(1)] assms(2)]
  by (metis prod_cases3 fst_conv)

lemma run_replies_alike:
  assumes "no_orphans s1" "no_orphans s2" "view t s1 = view t s2" "orderly clock1 clock2 t events"
  shows "fst (run execute_command events s1 log) = fst (run execute_command events s2 log) \<and>
    snd (snd (run execute_command events s1 log)) = snd (snd (run execute_command events s2 log))"
proof -
  have "related t s2 (view t s1)"
    using related_view [OF assms(2)] assms(3) by simp
  from keyspace.run_alike [OF related_view [OF assms(1)] this assms(4)] show ?thesis by blast
qed

subsection \<open>A list used as a queue\<close>

definition list_entry :: "string list \<Rightarrow> entry" where
  "list_entry xs = (if xs = [] then None else Some (ListValue xs, None))"

lemma list_entry_simps [simp]:
  "live t (list_entry xs) = list_entry xs"
  "contents get_list [] (list_entry xs) = Some xs"
  "with_value (ListValue ys) (list_entry xs) = list_entry ys"
  by (simp_all add: list_entry_def contents_def with_value_def deadline_of_def)

lemma push_step:
  "K k = list_entry ys \<Longrightarrow> spec_step env (request [''RPUSH'', k, x]) K =
     (make_integer (1 + int (length ys)), K(k := list_entry (ys @ [x])), [Command ''RPUSH'' [k, x]])"
  by (simp add: spec_step_def decode_def arity_of_def build_verbs to_upper_def toupper_def char_of_def)

lemma pop_step:
  "K k = list_entry (y # ys) \<Longrightarrow> spec_step env (request [''LPOP'', k]) K =
     (make_bulk_string y, K(k := list_entry ys), [Command ''LPOP'' [k]])"
  by (simp add: spec_step_def decode_def arity_of_def build_verbs to_upper_def toupper_def char_of_def)

lemma spec_run_append:
  "spec_run step (xs @ ys) a =
    (case spec_run step xs a of (rs, a, recs) \<Rightarrow>
     case spec_run step ys a of (rs', a, recs') \<Rightarrow> (rs @ rs', a, recs @ recs'))"
  by (induction step xs a rule: spec_run.induct) (auto split: prod.split)

lemma pushes:
  "length envs = length xs \<Longrightarrow> K k = list_entry ys \<Longrightarrow>
   \<exists>recs. spec_run spec_step (zip envs (map (\<lambda>x. request [''RPUSH'', k, x]) xs)) K =
     (map (\<lambda>i. make_integer (int (length ys + i))) [1..<Suc (length xs)],
      K(k := list_entry (ys @ xs)), recs)"
proof (induction envs xs arbitrary: K ys rule: list_induct2)
  case Nil
  then show ?case by (simp add: fun_upd_idem)
next
  case (Cons env envs x xs)
  obtain recs where rest:
    "spec_run spec_step (zip envs (map (\<lambda>x. request [''RPUSH'', k, x]) xs)) (K(k := list_entry (ys @ [x]))) =
     (map (\<lambda>i. make_integer (int (length (ys @ [x]) + i))) [1..<Suc (length xs)],
      K(k := list_entry (ys @ [x]), k := list_entry ((ys @ [x]) @ xs)), recs)"
    using Cons.IH [of "K(k := list_entry (ys @ [x]))" "ys @ [x]", OF fun_upd_same] by blast
  have "map (\<lambda>i. make_integer (int (length ys + i))) [1..<Suc (length (x # xs))] =
      make_integer (1 + int (length ys)) # map (\<lambda>i. make_integer (int (length (ys @ [x]) + i))) [1..<Suc (length xs)]"
    by (simp add: upt_conv_Cons map_Suc_upt [symmetric] ac_simps del: upt_Suc)
  with rest push_step [of K k ys env x] Cons.prems show ?case by (simp add: fun_eq_iff)
qed

lemma pops:
  "length envs = length ys \<Longrightarrow> K k = list_entry ys \<Longrightarrow>
   \<exists>recs. spec_run spec_step (zip envs (replicate (length ys) (request [''LPOP'', k]))) K =
     (map make_bulk_string ys, K(k := None), recs)"
proof (induction envs ys arbitrary: K rule: list_induct2)
  case Nil
  then show ?case by (simp add: list_entry_def fun_upd_idem)
next
  case (Cons env envs y ys)
  obtain recs where
    "spec_run spec_step (zip envs (replicate (length ys) (request [''LPOP'', k]))) (K(k := list_entry ys)) =
     (map make_bulk_string ys, K(k := list_entry ys, k := None), recs)"
    using Cons.IH [of "K(k := list_entry ys)", OF fun_upd_same] by blast
  with pop_step [of K k y ys env] Cons.prems show ?case by (simp add: fun_eq_iff)
qed

subsection \<open>Kinds of values\<close>

text \<open>The kind of value each command works on; the others take any.\<close>

fun accepts :: "command \<Rightarrow> Value \<Rightarrow> bool" where
  "accepts (Get k) v = (get_string v \<noteq> None)"
| "accepts (Push d k x) v = (get_list v \<noteq> None)"
| "accepts (Pop d k) v = (get_list v \<noteq> None)"
| "accepts (Llen k) v = (get_list v \<noteq> None)"
| "accepts (Lrange k i j) v = (get_list v \<noteq> None)"
| "accepts (Hset k f x) v = (get_hash v \<noteq> None)"
| "accepts (Hget k f) v = (get_hash v \<noteq> None)"
| "accepts (Hdel k f) v = (get_hash v \<noteq> None)"
| "accepts (Hexists k f) v = (get_hash v \<noteq> None)"
| "accepts (Hlen k) v = (get_hash v \<noteq> None)"
| "accepts (Sadd k m) v = (get_set v \<noteq> None)"
| "accepts (Srem k m) v = (get_set v \<noteq> None)"
| "accepts (Sismember k m) v = (get_set v \<noteq> None)"
| "accepts (Scard k) v = (get_set v \<noteq> None)"
| "accepts (Smembers k) v = (get_set v \<noteq> None)"
| "accepts c v = True"

lemma spec_wrong_type:
  "spec env c (Some (v, d)) = (r, e, recs) \<Longrightarrow> r = wrong_type \<longleftrightarrow> \<not> accepts c v"
  by (cases c; cases v)
    (auto simp: contents_def flag_def wrong_type_def not_an_integer_def make_defs
      split: if_splits option.splits prod.splits)

lemma spec_missing_type: "spec env c None = (r, e, recs) \<Longrightarrow> r \<noteq> wrong_type"
  by (cases c)
    (auto simp: contents_def flag_def wrong_type_def not_an_integer_def make_defs split: if_splits)

subsection \<open>Deadlines\<close>

lemma ceil_seconds_bounds:
  "d \<le> ceil_seconds d * ticks_per_second \<and> ceil_seconds d * ticks_per_second < d + ticks_per_second"
  by (auto simp: ceil_seconds_def whole_seconds_def ticks_per_second_def Let_def)

lemma ceil_seconds_whole [simp]: "ceil_seconds (n * ticks_per_second) = n"
  using ceil_seconds_bounds [of "n * ticks_per_second"] by (simp add: ticks_per_second_def)

text \<open>\<open>EXPIRE\<close> on a live key, as the clients see it.\<close>

lemma expire_view:
  assumes "no_orphans s" "clock1 env \<le> clock2 env" "view (clock2 env) s k = Some (v, d)"
    "to_upper verb = ''EXPIRE''" "to_integer n = Some i" "0 < i" "i \<le> max_seconds (clock1 env)"
  obtains s' where
    "execute_command env (request [verb, k, n]) s log =
       (make_integer 1, s', add_record (Deadline k (unix_time env + i)) log)"
    "no_orphans s'"
    "\<And>t. clock2 env \<le> t \<Longrightarrow>
       view t s' = (view t s)(k := live t (Some (v, Some (clock1 env + i * ticks_per_second))))"
proof -
  have "spec env (Expire k i) (view (command_time env (Expire k i)) s (key_of (Expire k i))) =
      (make_integer 1, Some (v, Some (clock1 env + i * ticks_per_second)), [Deadline k (unix_time env + i)])"
    using assms(3,6,7) by (simp add: flag_def)
  from execute_command_view [OF assms(1,2) _ decode_verbs(3) [OF assms(4,5)] this, where log = log]
  obtain s' where
    "execute_command env (request [verb, k, n]) s log =
       (make_integer 1, s', fold add_record [Deadline k (unix_time env + i)] log)"
    "no_orphans s'"
    "\<And>t. clock2 env \<le> t \<Longrightarrow>
       view t s' = (view t s)(k := live t (Some (v, Some (clock1 env + i * ticks_per_second))))"
    by auto
  then show thesis by (intro that) (simp_all del: live_simps)
qed

text \<open>\<open>LRANGE 0 -1\<close> is the whole list.\<close>

lemma slice_whole: "slice xs 0 (- 1) = xs"
  by (simp add: slice_def position_def Let_def)

subsection \<open>Adding members to a set\<close>

definition set_entry :: "string fset \<Rightarrow> entry" where
  "set_entry m = (if m = {||} then None else Some (SetValue m, None))"

lemma set_entry_simps [simp]:
  "live t (set_entry m) = set_entry m"
  "contents get_set {||} (set_entry m) = Some m"
  "with_value (SetValue m') (set_entry m) = set_entry m'"
  by (auto simp: set_entry_def contents_def with_value_def deadline_of_def)

lemma sadd_step:
  assumes "K k = set_entry m"
  shows "\<exists>recs. spec_step env (request [''SADD'', k, x]) K =
     (flag (x |\<notin>| m), K(k := set_entry (finsert x m)), recs)"
proof -
  have "to_upper ''SADD'' = ''SADD''" by code_simp
  then show ?thesis
    using assms by (cases "x |\<in>| m") (simp_all add: spec_step_decoded decode_verbs finsert_absorb fun_upd_idem)
qed

fun added :: "string fset \<Rightarrow> string list \<Rightarrow> bool list" where
  "added m [] = []"
| "added m (x # xs) = ((x |\<notin>| m) # added (finsert x m) xs)"

lemma added_count: "length (filter id (added m xs)) + fcard m = fcard (m |\<union>| fset_of_list xs)"
proof (induction m xs rule: added.induct)
  case (1 m)
  then show ?case by simp
next
  case (2 m x xs)
  have "finsert x m |\<union>| fset_of_list xs = m |\<union>| fset_of_list (x # xs)" by auto
  with 2 show ?case
    by (cases "x |\<in>| m") (simp_all add: finsert_absorb fcard_finsert_disjoint del: fset_of_list_simps)
qed

lemma sadds:
  "length envs = length xs \<Longrightarrow> K k = set_entry m \<Longrightarrow>
   \<exists>recs. spec_run spec_step (zip envs (map (\<lambda>x. request [''SADD'', k, x]) xs)) K =
     (map flag (added m xs), K(k := set_entry (m |\<union>| fset_of_list xs)), recs)"
proof (induction envs xs arbitrary: K m rule: list_induct2)
  case Nil
  then show ?case by (simp add: fun_upd_idem)
next
  case (Cons env envs x xs)
  obtain recs1 where "spec_step env (request [''SADD'', k, x]) K =
      (flag (x |\<notin>| m), K(k := set_entry (finsert x m)), recs1)"
    using sadd_step [of K k m env x] Cons.prems by blast
  moreover obtain recs where
    "spec_run spec_step (zip envs (map (\<lambda>x. request [''SADD'', k, x]) xs)) (K(k := set_entry (finsert x m))) =
     (map flag (added (finsert x m) xs),
      K(k := set_entry (finsert x m), k := set_entry (finsert x m |\<union>| fset_of_list xs)), recs)"
    using Cons.IH [of "K(k := set_entry (finsert x m))" "finsert x m", OF fun_upd_same] by blast
  ultimately show ?case by (simp add: fun_eq_iff)
qed

subsection \<open>Replies\<close>

text \<open>The shapes of replies; what is left to bound are the sizes of what they hold.\<close>

definition reply_shape :: "RespValue \<Rightarrow> bool" where
  "reply_shape r \<longleftrightarrow>
     (\<exists>s. one_line s \<and> (r = make_simple_string s \<or> r = make_error s)) \<or> (\<exists>n. r = make_integer n) \<or>
     r = make_null_bulk_string \<or> (\<exists>s. r = make_bulk_string s) \<or>
     (\<exists>xs. r = make_array (map make_bulk_string xs))"

lemma reply_shapes [intro]:
  "one_line s \<Longrightarrow> reply_shape (make_simple_string s)" "one_line s \<Longrightarrow> reply_shape (make_error s)"
  "reply_shape (make_integer n)" "reply_shape make_null_bulk_string" "reply_shape (make_bulk_string s)"
  "reply_shape (make_array (map make_bulk_string xs))" "reply_shape (make_array [])"
  unfolding reply_shape_def by (auto intro: exI [of _ "[]"])

lemma reply_errors [intro]:
  "reply_shape wrong_type" "reply_shape not_an_integer" "reply_shape bad_request"
  "reply_shape (flag b)"
  unfolding wrong_type_def not_an_integer_def bad_request_def flag_def
  by (rule reply_shapes; simp add: one_line_def)+

lemma spec_reply: "spec env c e = (r, e', recs) \<Longrightarrow> reply_shape r"
proof (cases c)
  case Ping
  then show "spec env c e = (r, e', recs) \<Longrightarrow> reply_shape r" by (auto simp: one_line_def intro!: reply_shapes)
next
  case Set
  then show "spec env c e = (r, e', recs) \<Longrightarrow> reply_shape r" by (auto simp: one_line_def intro!: reply_shapes)
qed (auto split: option.splits if_splits prod.splits Value.splits)

lemma to_upper_one_line: "one_line (to_lower (to_upper s)) \<longleftrightarrow> one_line s"
proof -
  let ?f = "\<lambda>c. let n = of_char (toupper c) :: int in
      if 65 \<le> n \<and> n \<le> 90 then char_of (n + 32) else toupper c"
  have f: "?f c \<in> {CR, LF} \<longleftrightarrow> c \<in> {CR, LF}" for c
  proof (cases "97 \<le> (of_char c :: int) \<and> (of_char c :: int) \<le> 122")
    case True
    then have "(of_char (toupper c) :: int) = of_char c - 32" by (simp add: toupper_def)
    with True show ?thesis by (auto simp: Let_def)
  next
    case False
    then have same: "toupper c = c" by (auto simp: toupper_def Let_def)
    have "char_of (of_char c + 32 :: int) \<notin> {CR, LF}" if "65 \<le> (of_char c :: int)" "(of_char c :: int) \<le> 90"
    proof
      assume "char_of (of_char c + 32 :: int) \<in> {CR, LF}"
      then have "(of_char (char_of (of_char c + 32 :: int) :: char) :: int) \<in> {of_char CR, of_char LF}"
        by (auto simp del: of_char_of)
      with that show False by simp
    qed
    with same show ?thesis by (auto simp: Let_def)
  qed
  have "to_lower (to_upper s) = map ?f s" by (simp add: to_lower_def to_upper_def comp_def)
  moreover have "one_line t \<longleftrightarrow> list_all (\<lambda>c. c \<notin> {CR, LF}) t" for t
    by (auto simp: one_line_def list_all_iff)
  ultimately show ?thesis by (simp only: list.pred_map comp_def f)
qed

lemma decode_reply:
  assumes "decode words = Inl r" "one_line (words ! 0)"
  shows "reply_shape r"
proof -
  have "one_line ([QUOTE] @ words ! 0 @ [QUOTE])" "one_line ([QUOTE] @ to_lower (to_upper (words ! 0)) @ [QUOTE])"
    using assms(2) to_upper_one_line [of "words ! 0"] by (simp_all add: one_line_def)
  then show ?thesis
    using assms(1)
    by (auto simp: decode_def build_def wrong_arity_def one_line_def intro!: reply_shapes
        split: option.splits if_splits)
qed

text \<open>A reply whose text fits in a string and whose number is a \<open>long long\<close> is read back as it is.\<close>

lemma serialize_bulks_length:
  "length xs \<le> length (concat (map serialize (map make_bulk_string xs))) \<and>
   (\<forall>x \<in> set xs. length x \<le> length (concat (map serialize (map make_bulk_string xs))))"
  by (induction xs) (auto simp: make_defs)

lemma reply_within:
  assumes "reply_shape r" "int (length (serialize r)) \<le> LLONG_MAX" "fits_llong (rv_integer r)"
  shows "within_depth r"
proof -
  consider (line) s where "one_line s" "r = make_simple_string s \<or> r = make_error s"
    | (integer) n where "r = make_integer n" | (null) "r = make_null_bulk_string"
    | (bulk) s where "r = make_bulk_string s" | (array) xs where "r = make_array (map make_bulk_string xs)"
    using assms(1) unfolding reply_shape_def by blast
  then show ?thesis
  proof cases
    case line
    then show ?thesis by (auto simp: within_depth_def make_defs nesting_le_iff kMaxDepth_def)
  next
    case integer
    with assms(3) show ?thesis by (simp add: make_defs within_depth_def nesting_le_iff kMaxDepth_def)
  next
    case null
    then show ?thesis by (simp add: within_depth_def make_defs nesting_le_iff kMaxDepth_def)
  next
    case bulk
    with assms(2) show ?thesis by (simp add: within_depth_def make_defs nesting_le_iff kMaxDepth_def)
  next
    case array
    have total: "int (length (concat (map serialize (map make_bulk_string xs)))) \<le> LLONG_MAX"
      using assms(2) by (simp add: array make_defs)
    have "int (length xs) \<le> LLONG_MAX" "\<forall>x \<in> set xs. int (length x) \<le> LLONG_MAX"
      using serialize_bulks_length [of xs] total by (force intro: order_trans [OF _ total])+
    then show ?thesis
      by (simp add: array within_depth_def make_defs nesting_le_iff kMaxDepth_def list_all_iff)
  qed
qed

text \<open>A request is answered by a constant error, by an error about its words, or by its command.\<close>

lemma execute_request_cases [consumes 2, case_names empty error command]:
  assumes "no_orphans s" "execute_command env (request words) s log = (r, s', log')"
  obtains "words = []" "r = bad_request" "s' = s" "log' = log"
  | "words \<noteq> []" "decode words = Inl r" "s' = s" "log' = log"
  | c where "words \<noteq> []" "decode words = Inr c" "implements (r, s', log') env c s log"
proof (cases "words = []")
  case True
  then show thesis using execute_malformed [of "request words"] assms(2) that(1) by simp
next
  case False
  note run = execute_decode [of "request words" s env log, OF _ assms(1)]
  show thesis
  proof (cases "decode words")
    case (Inl e)
    with run assms(2) False that(2) show thesis by simp
  next
    case (Inr c)
    with run assms(2) False that(3) show thesis by simp
  qed
qed

lemma execute_reply_shape:
  assumes "no_orphans s" "execute_command env (request words) s log = (r, s', log')" "one_line (words ! 0)"
  shows "reply_shape r"
  using assms(1,2)
proof (cases rule: execute_request_cases)
  case empty
  then show ?thesis by (simp add: reply_errors)
next
  case error
  then show ?thesis using decode_reply assms(3) by blast
next
  case (command c)
  then show ?thesis using spec_reply by (auto simp: implements_def Let_def split: prod.splits)
qed

lemma execute_no_orphans:
  assumes "no_orphans s" "execute_command env (request words) s log = (r, s', log')"
  shows "no_orphans s'"
  using assms
proof (cases rule: execute_request_cases)
  case (command c)
  then show ?thesis by (auto simp: implements_def Let_def split: prod.splits)
qed (use assms in simp_all)

text \<open>Replies small enough to be read back.\<close>

definition reply_fits :: "RespValue \<Rightarrow> bool" where
  "reply_fits r \<longleftrightarrow> int (length (serialize r)) \<le> LLONG_MAX \<and> fits_llong (rv_integer r)"

lemma run_replies_within:
  assumes "no_orphans s" "run execute_command (map (\<lambda>(env, words). (env, request words)) batch) s log = (rs, s', log')"
    and "list_all (\<lambda>(env, words). one_line (words ! 0)) batch" "list_all reply_fits rs"
  shows "list_all within_depth rs"
  using assms
proof (induction batch arbitrary: s log rs)
  case (Cons b batch)
  obtain env words where b: "b = (env, words)" by (cases b)
  obtain r s1 log1 where one: "execute_command env (request words) s log = (r, s1, log1)" by (metis prod_cases3)
  obtain qs where rest: "run execute_command (map (\<lambda>(env, words). (env, request words)) batch) s1 log1 = (qs, s', log')"
    and rs: "rs = r # qs"
    using Cons.prems(2) by (auto simp: b one split: prod.splits)
  have "within_depth r"
    using reply_within [OF execute_reply_shape [OF Cons.prems(1) one]] Cons.prems(3,4)
    by (simp add: b rs reply_fits_def)
  then show ?case
    using Cons.IH [OF execute_no_orphans [OF Cons.prems(1) one] rest] Cons.prems(3,4) by (simp add: b rs)
qed simp

end
