(* ===== verification/Keyspace_Properties.thy ===== *)
theory Keyspace_Properties
  imports Keyspace_Laws
begin

text \<open>
  The properties of the keyspace: what \<open>execute_command\<close> guarantees to the clients of the
  server, for one command and for any list of commands of any number of clients.
\<close>

subsection \<open>Refinement\<close>

text \<open>C1. A request has the reply and the log record that the specification of its command
  gives for the live entry of its key, and the new store looks like the specified keyspace
  from then on.\<close>

theorem execute_refines:
  assumes "no_orphans s" "clock1 env \<le> clock2 env"
    and "execute_command env req s log = (r, s', log')"
    and "spec_step env req (entry_of s) = (r', K, recs)"
  shows "r = r' \<and> log' = fold add_record recs log \<and> no_orphans s' \<and>
    view (clock2 env) s' = purge (clock2 env) K"
proof -
  have "related (clock1 env) s (entry_of s)"
    by (rule related_entries [OF assms(1)])
  from keyspace.simulates [OF this order_refl assms(2-4)] show ?thesis
    by (simp add: related_def)
qed

theorem execute_refines_witness:
  "\<exists>s'. execute_command (env_at 5) (request [''lpush'', ''k'', ''x'']) empty_store (Some []) =
     (make_integer 1, s', Some (''LPUSH 1 k 1 x'' @ [LF])) \<and>
     view 5 s' = purge 5 ((\<lambda>_. None)(''k'' := Some (ListValue [''x''], None)))"
proof -
  let ?req = "request [''lpush'', ''k'', ''x'']"
  obtain r s' log' where run: "execute_command (env_at 5) ?req empty_store (Some []) = (r, s', log')"
    by (metis prod_cases3)
  have "fst (execute_command (env_at 5) ?req empty_store (Some [])) = make_integer 1"
    "snd (snd (execute_command (env_at 5) ?req empty_store (Some []))) = Some (''LPUSH 1 k 1 x'' @ [LF])"
    by code_simp+
  moreover have "to_upper ''lpush'' = ''LPUSH''" by code_simp
  then have "spec_step (env_at 5) ?req (entry_of empty_store) =
      (make_integer 1, (entry_of empty_store)(''k'' := Some (ListValue [''x''], None)), [Command ''LPUSH'' [''k'', ''x'']])"
    by (simp add: spec_step_def decode_verbs entry_of_def empty_store_def contents_def
        with_value_def deadline_of_def)
  moreover have "entry_of empty_store = (\<lambda>_. None)"
    by (simp add: entry_of_def empty_store_def fun_eq_iff)
  ultimately show ?thesis
    using execute_refines [OF no_orphans_empty _ run] run by (simp add: env_at_def)
qed

text \<open>C2. Any list of requests, read with a clock that does not go back, has the replies and
  the log of the specification.\<close>

theorem run_refines:
  assumes "no_orphans s" "orderly clock1 clock2 t events"
    and "run execute_command events s log = (rs, s', log')"
    and "spec_run spec_step events (view t s) = (rs', K, recs)"
  shows "rs = rs' \<and> log' = fold add_record recs log \<and> no_orphans s' \<and>
    view (last_end clock2 t events) s' = purge (last_end clock2 t events) K"
  using keyspace.run_simulates [OF related_view [OF assms(1)] assms(2-4)]
  by (simp add: related_def)

theorem run_refines_witness:
  "let events = [(env_at 5, request [''SET'', ''k'', ''v'']), (env_at 6, request [''EXPIRE'', ''k'', ''1'']),
       (env_at 2000000000, request [''GET'', ''k''])]
   in fst (run execute_command events empty_store None) =
      [make_simple_string ''OK'', make_integer 1, make_null_bulk_string] \<and>
      fst (spec_run spec_step events (view 5 empty_store)) =
      [make_simple_string ''OK'', make_integer 1, make_null_bulk_string]"
proof -
  let ?events = "[(env_at 5, request [''SET'', ''k'', ''v'']), (env_at 6, request [''EXPIRE'', ''k'', ''1'']),
       (env_at 2000000000, request [''GET'', ''k''])]"
  have "fst (run execute_command ?events empty_store None) =
      [make_simple_string ''OK'', make_integer 1, make_null_bulk_string]"
    by code_simp
  moreover have "orderly clock1 clock2 5 ?events" by code_simp
  ultimately show ?thesis
    using run_refines [OF no_orphans_empty, of 5 ?events None]
    by (metis prod_cases3 fst_conv)
qed

text \<open>C14. Lazy clean-up cannot be observed: two stores that look the same at one time, however
  many expired keys each still holds, give the same replies and the same log from then on.\<close>

theorem lazy_expiry_unobservable:
  assumes "no_orphans s1" "no_orphans s2" "view t s1 = view t s2" "orderly clock1 clock2 t events"
  shows "fst (run execute_command events s1 log) = fst (run execute_command events s2 log) \<and>
    snd (snd (run execute_command events s1 log)) = snd (snd (run execute_command events s2 log))"
  using assms by (rule run_replies_alike)

theorem lazy_expiry_unobservable_witness:
  "let expired = \<lparr>vals = fmap_of_list [(''k'', StringValue ''v'')], expirations = fmap_of_list [(''k'', 3)]\<rparr>;
       events = [(env_at 5, request [''GET'', ''k'']), (env_at 6, request [''SADD'', ''k'', ''m''])]
   in fst (run execute_command events expired None) = fst (run execute_command events empty_store None) \<and>
      fst (run execute_command events empty_store None) = [make_null_bulk_string, make_integer 1]"
proof -
  let ?expired = "\<lparr>vals = fmap_of_list [(''k'', StringValue ''v'')], expirations = fmap_of_list [(''k'', 3)]\<rparr>"
  let ?events = "[(env_at 5, request [''GET'', ''k'']), (env_at 6, request [''SADD'', ''k'', ''m''])]"
  have "no_orphans ?expired" by (simp add: no_orphans_def)
  moreover have "view 5 ?expired = view 5 empty_store"
    by (simp add: fun_eq_iff view_def entry_of_def empty_store_def)
  moreover have "orderly clock1 clock2 5 ?events" by code_simp
  moreover have "fst (run execute_command ?events empty_store None) = [make_null_bulk_string, make_integer 1]"
    by code_simp
  ultimately show ?thesis
    using lazy_expiry_unobservable [of ?expired empty_store 5 ?events None] by simp
qed

subsection \<open>Invariants\<close>

text \<open>C11. No list of requests leaves an empty container, a deadline without its key, or a
  deadline outside the clock's range.\<close>

theorem store_ok_always:
  assumes "store_ok s" "\<forall>(env, req) \<in> set events. env_ok env"
    and "run execute_command events s log = (rs, s', log')"
  shows "store_ok s'"
  using assms by (rule store.run_keeps)

theorem store_ok_always_witness:
  "store_ok (fst (snd (run execute_command
     [(env_at 5, request [''RPUSH'', ''k'', ''x'']), (env_at 6, request [''RPOP'', ''k''])] empty_store None)))"
proof -
  let ?events = "[(env_at 5, request [''RPUSH'', ''k'', ''x'']), (env_at 6, request [''RPOP'', ''k''])]"
  obtain rs s' log' where run: "run execute_command ?events empty_store None = (rs, s', log')"
    by (metis prod_cases3)
  have "\<forall>(env, req) \<in> set ?events. env_ok env"
    by (simp add: env_ok_def env_at_def llong_defs)
  from store_ok_always [OF store_ok_empty this run] run show ?thesis by simp
qed

text \<open>C23. A command touches no key but its own: value and deadline of every other key stay,
  also when the command fails.\<close>

theorem other_keys_untouched:
  assumes "no_orphans s" "decode words = Inr c" "words \<noteq> []" "k \<noteq> key_of c"
    and "execute_command env (request words) s log = (r, s', log')"
  shows "fmlookup (vals s') k = fmlookup (vals s) k \<and>
    fmlookup (expirations s') k = fmlookup (expirations s) k"
  using execute_frame [OF assms(1,5)] assms(2-4) by simp

theorem other_keys_untouched_witness:
  "let s = \<lparr>vals = fmap_of_list [(''a'', StringValue ''v'')], expirations = fmap_of_list [(''a'', 9)]\<rparr>
   in fmlookup (expirations (fst (snd (execute_command (env_at 5) (request [''DEL'', ''k'']) s None)))) ''a'' = Some 9"
proof -
  let ?s = "\<lparr>vals = fmap_of_list [(''a'', StringValue ''v'')], expirations = fmap_of_list [(''a'', 9)]\<rparr>"
  obtain r s' log' where run: "execute_command (env_at 5) (request [''DEL'', ''k'']) ?s None = (r, s', log')"
    by (metis prod_cases3)
  have "no_orphans ?s" by (simp add: no_orphans_def)
  moreover have "decode [''DEL'', ''k''] = Inr (Del ''k'')" by code_simp
  ultimately show ?thesis
    using other_keys_untouched [OF _ _ _ _ run, of "Del ''k''" "''a''"] run by simp
qed

text \<open>C21. A request answered with an error changes nothing a client can see, and is not logged.\<close>

theorem error_changes_nothing:
  assumes "no_orphans s" "clock1 env \<le> clock2 env"
    and "execute_command env req s log = (r, s', log')" "rv_type r = Error"
  shows "log' = log \<and> view (clock2 env) s' = view (clock2 env) s"
proof -
  obtain r' K recs where sp: "spec_step env req (entry_of s) = (r', K, recs)" by (metis prod_cases3)
  note sim = keyspace.simulates [OF related_entries [OF assms(1)] order_refl assms(2,3) sp]
  then have "recs = [] \<and> purge (clock2 env) K = purge (clock2 env) (entry_of s)"
    using spec_step_silent [OF sp assms(2) order_refl] assms(4) by simp
  with sim show ?thesis by (simp add: related_def) (simp add: view_def purge_def fun_eq_iff)
qed

theorem error_changes_nothing_witness:
  "let s = \<lparr>vals = fmap_of_list [(''k'', StringValue ''v'')], expirations = fmempty\<rparr>;
       result = execute_command (env_at 5) (request [''LPUSH'', ''k'', ''x'']) s (Some [])
   in fst result = wrong_type \<and> snd (snd result) = Some []"
proof -
  let ?s = "\<lparr>vals = fmap_of_list [(''k'', StringValue ''v'')], expirations = fmempty\<rparr>"
  obtain r s' log' where run: "execute_command (env_at 5) (request [''LPUSH'', ''k'', ''x'']) ?s (Some []) = (r, s', log')"
    by (metis prod_cases3)
  have "fst (execute_command (env_at 5) (request [''LPUSH'', ''k'', ''x'']) ?s (Some [])) = wrong_type"
    by code_simp
  moreover have "rv_type wrong_type = Error" by code_simp
  moreover have "no_orphans ?s" by (simp add: no_orphans_def)
  ultimately show ?thesis
    using error_changes_nothing [OF _ _ run] run by (simp add: env_at_def)
qed

text \<open>C22. A request adds at most one record to an open log, and one that adds none changed
  nothing a client can see.\<close>

theorem unlogged_changes_nothing:
  assumes "no_orphans s" "clock1 env \<le> clock2 env"
    and "execute_command env req s (Some written) = (r, s', log')"
  shows "(\<exists>rec. log' = Some (written @ record_bytes rec)) \<or>
    log' = Some written \<and> view (clock2 env) s' = view (clock2 env) s"
proof -
  obtain r' K recs where sp: "spec_step env req (entry_of s) = (r', K, recs)" by (metis prod_cases3)
  note sim = keyspace.simulates [OF related_entries [OF assms(1)] order_refl assms(2,3) sp]
  show ?thesis
  proof (cases recs)
    case Nil
    then have "purge (clock2 env) K = purge (clock2 env) (entry_of s)"
      using spec_step_silent [OF sp assms(2) order_refl] by simp
    with sim Nil show ?thesis by (simp add: related_def) (simp add: view_def purge_def fun_eq_iff)
  next
    case (Cons rec recs')
    with spec_step_one_record [OF sp] have "recs = [rec]" by simp
    with sim show ?thesis by (auto simp: add_record_def)
  qed
qed

theorem unlogged_changes_nothing_witness:
  "let s = \<lparr>vals = fmap_of_list [(''k'', SetValue {|''m''|})], expirations = fmempty\<rparr>
   in (\<exists>rec. snd (snd (execute_command (env_at 5) (request [''SADD'', ''k'', ''n'']) s (Some ''P''))) =
        Some (''P'' @ record_bytes rec))"
proof -
  let ?s = "\<lparr>vals = fmap_of_list [(''k'', SetValue {|''m''|})], expirations = fmempty\<rparr>"
  let ?run = "execute_command (env_at 5) (request [''SADD'', ''k'', ''n'']) ?s (Some ''P'')"
  obtain r s' log' where run: "?run = (r, s', log')" by (metis prod_cases3)
  have "no_orphans ?s" by (simp add: no_orphans_def)
  moreover have "snd (snd ?run) \<noteq> Some ''P''" by code_simp
  ultimately show ?thesis
    using unlogged_changes_nothing [OF _ _ run] run by (auto simp: env_at_def)
qed

text \<open>C17. Replies can be read: unless the verb itself holds a line end, the serialized reply to any request
  parses to the reply, so long as its text fits in a string and its number is a 64-bit integer.\<close>

theorem replies_readable:
  assumes "no_orphans s" "one_line (words ! 0)"
    and "execute_command env (request words) s log = (r, s', log')"
    and "int (length (serialize r)) \<le> LLONG_MAX" "fits_llong (rv_integer r)"
  shows "parse (serialize r @ rest) =
    \<lparr>pr_status = Ok, pr_value = r, pr_consumed = length (serialize r), pr_error = []\<rparr>"
  by (rule parse_within_depth [OF reply_within [OF execute_reply_shape [OF assms(1,3,2)] assms(4,5)]])

theorem replies_readable_witness:
  "pr_value (parse (serialize (make_array [make_bulk_string [CR, LF]]) @ ''x'')) = make_array [make_bulk_string [CR, LF]]"
proof -
  let ?s = "\<lparr>vals = fmap_of_list [(''k'', ListValue [[CR, LF]])], expirations = fmempty\<rparr>"
  let ?run = "execute_command (env_at 5) (request [''LRANGE'', ''k'', ''0'', ''-1'']) ?s None"
  obtain r s' log' where run: "?run = (r, s', log')" by (metis prod_cases3)
  have "fst ?run = make_array [make_bulk_string [CR, LF]]" by code_simp
  with run have r: "r = make_array [make_bulk_string [CR, LF]]" by simp
  have "no_orphans ?s" by (simp add: no_orphans_def)
  moreover have "int (length (serialize r)) \<le> LLONG_MAX" unfolding r by code_simp
  moreover have "fits_llong (rv_integer r)" unfolding r by code_simp
  ultimately show ?thesis
    using replies_readable [OF _ _ run] by (simp add: r one_line_def)
qed

subsection \<open>Laws of the commands\<close>

text \<open>\<open>GET\<close> after \<open>SET\<close> returns the value set, at any later time, whatever the key held before
  and however the verbs are capitalised.\<close>

lemma set_then_get:
  assumes "no_orphans s" "to_upper set_verb = ''SET''" "to_upper get_verb = ''GET''"
    and "orderly clock1 clock2 t [(env1, request [set_verb, k, x]), (env2, request [get_verb, k])]"
  shows "fst (run execute_command [(env1, request [set_verb, k, x]), (env2, request [get_verb, k])] s log) =
    [make_simple_string ''OK'', make_bulk_string x]"
  using run_replies [OF assms(1,4)]
  by (simp add: spec_step_decoded decode_verbs assms(2,3))

text \<open>C26. \<open>RPUSH\<close> and \<open>LPOP\<close> make a list a queue: any words pushed on a missing key come out in
  the order they went in, each push answers with the new length, and the key is gone at the end.\<close>

theorem list_is_a_queue:
  assumes "no_orphans s" "view t s k = None"
    and "length envs1 = length xs" "length envs2 = length xs"
    and "events = zip envs1 (map (\<lambda>x. request [''RPUSH'', k, x]) xs) @
      zip envs2 (replicate (length xs) (request [''LPOP'', k]))"
    and "orderly clock1 clock2 t events"
    and "run execute_command events s log = (rs, s', log')"
  shows "rs = map (\<lambda>i. make_integer (int i)) [1..<Suc (length xs)] @ map make_bulk_string xs \<and>
    view (last_end clock2 t events) s' k = None"
proof -
  let ?K = "view t s"
  have "?K k = list_entry []" using assms(2) by (simp add: list_entry_def)
  from pushes [OF assms(3), of ?K k, OF this] obtain recs1 where one:
    "spec_run spec_step (zip envs1 (map (\<lambda>x. request [''RPUSH'', k, x]) xs)) ?K =
     (map (\<lambda>i. make_integer (int i)) [1..<Suc (length xs)], ?K(k := list_entry xs), recs1)"
    by (auto simp del: upt_Suc)
  from pops [OF assms(4), of "?K(k := list_entry xs)" k, OF fun_upd_same] obtain recs2 where two:
    "spec_run spec_step (zip envs2 (replicate (length xs) (request [''LPOP'', k]))) (?K(k := list_entry xs)) =
     (map make_bulk_string xs, ?K(k := list_entry xs, k := None), recs2)"
    by blast
  have "spec_run spec_step events ?K =
     (map (\<lambda>i. make_integer (int i)) [1..<Suc (length xs)] @ map make_bulk_string xs,
      ?K(k := list_entry xs, k := None), recs1 @ recs2)"
    unfolding assms(5) spec_run_append one prod.case two by simp
  from keyspace.run_simulates [OF related_view [OF assms(1)] assms(6,7) this] show ?thesis
    by (simp add: related_def purge_def del: upt_Suc)
qed

theorem list_is_a_queue_witness:
  "fst (run execute_command
     [(env_at 1, request [''RPUSH'', ''k'', ''a'']), (env_at 2, request [''RPUSH'', ''k'', ''b'']),
      (env_at 3, request [''LPOP'', ''k'']), (env_at 4, request [''LPOP'', ''k''])] empty_store None) =
   [make_integer 1, make_integer 2, make_bulk_string ''a'', make_bulk_string ''b'']"
proof -
  let ?events = "[(env_at 1, request [''RPUSH'', ''k'', ''a'']), (env_at 2, request [''RPUSH'', ''k'', ''b'']),
      (env_at 3, request [''LPOP'', ''k'']), (env_at 4, request [''LPOP'', ''k''])]"
  obtain rs s' log' where run: "run execute_command ?events empty_store None = (rs, s', log')"
    by (metis prod_cases3)
  have events: "?events = zip [env_at 1, env_at 2] (map (\<lambda>x. request [''RPUSH'', ''k'', x]) [''a'', ''b'']) @
      zip [env_at 3, env_at 4] (replicate (length [''a'', ''b'']) (request [''LPOP'', ''k'']))"
    by (simp add: numeral_2_eq_2)
  have orderly: "orderly clock1 clock2 1 ?events" by code_simp
  show ?thesis
    using list_is_a_queue [OF no_orphans_empty view_empty _ _ events orderly run] run
    by (simp add: upt_conv_Cons)
qed

text \<open>C27. After \<open>EXPIRE key n\<close> on a live key, \<open>TTL\<close> answers the smallest number of seconds that
  is not less than the time left, exactly \<open>n\<close> if no time has passed, and -2 once the deadline
  is reached.\<close>

theorem ttl_after_expire:
  assumes "no_orphans s" "view (clock2 env1) s k \<noteq> None"
    and "to_integer n = Some i" "0 < i" "i \<le> max_seconds (clock1 env1)"
    and "deadline = clock1 env1 + i * ticks_per_second"
    and "orderly clock1 clock2 t [(env1, request [''EXPIRE'', k, n]), (env2, request [''TTL'', k])]"
  shows "\<exists>left. fst (run execute_command [(env1, request [''EXPIRE'', k, n]), (env2, request [''TTL'', k])] s log) =
      [make_integer 1, make_integer left] \<and>
    (if clock1 env2 < deadline
     then deadline - clock2 env2 \<le> left * ticks_per_second \<and>
          left * ticks_per_second < deadline - clock2 env2 + ticks_per_second \<and>
          (clock2 env2 = clock1 env1 \<longrightarrow> left = i)
     else left = - 2)"
proof -
  obtain v d where live: "view (clock2 env1) s k = Some (v, d)" using assms(2) by auto
  have times: "clock1 env1 \<le> clock2 env1" "clock1 env2 \<le> clock2 env2" "clock2 env1 \<le> clock1 env2"
    using assms(7) by simp_all
  have verbs: "to_upper ''EXPIRE'' = ''EXPIRE''" "to_upper ''TTL'' = ''TTL''" by code_simp+
  obtain s1 log1 where one: "execute_command env1 (request [''EXPIRE'', k, n]) s log = (make_integer 1, s1, log1)"
    "no_orphans s1" "view (clock1 env2) s1 k = live (clock1 env2) (Some (v, Some deadline))"
    using expire_view [OF assms(1) times(1) live verbs(1) assms(3-5), where log = log] times(3) assms(6)
    by (metis (no_types, lifting) fun_upd_same)
  let ?left = "case view (clock1 env2) s1 k of None \<Rightarrow> - 2 | Some (v, None) \<Rightarrow> - 1
    | Some (v, Some deadline) \<Rightarrow> ceil_seconds (deadline - clock2 env2)"
  have "spec env2 (Ttl k) (view (command_time env2 (Ttl k)) s1 (key_of (Ttl k))) =
      (make_integer ?left, view (clock1 env2) s1 k, [])"
    by simp
  from execute_command_view [OF one(2) times(2) _ decode_verbs(2) [OF verbs(2)] this, where log = log1]
  obtain s2 where "execute_command env2 (request [''TTL'', k]) s1 log1 = (make_integer ?left, s2, log1)"
    by auto
  then have "fst (run execute_command [(env1, request [''EXPIRE'', k, n]), (env2, request [''TTL'', k])] s log) =
      [make_integer 1, make_integer ?left]"
    by (simp add: one(1))
  moreover have "if clock1 env2 < deadline
     then deadline - clock2 env2 \<le> ?left * ticks_per_second \<and>
          ?left * ticks_per_second < deadline - clock2 env2 + ticks_per_second \<and>
          (clock2 env2 = clock1 env1 \<longrightarrow> ?left = i)
     else ?left = - 2"
    using one(3) ceil_seconds_bounds [of "deadline - clock2 env2"] by (simp add: assms(6))
  ultimately show ?thesis by blast
qed

theorem ttl_after_expire_witness:
  "\<exists>left. fst (run execute_command
      [(env_at 5, request [''EXPIRE'', ''k'', ''2'']), (env_at 1000000006, request [''TTL'', ''k''])]
      \<lparr>vals = fmap_of_list [(''k'', StringValue ''v'')], expirations = fmempty\<rparr> None) =
     [make_integer 1, make_integer left] \<and>
   2000000005 - 1000000006 \<le> left * ticks_per_second"
proof -
  let ?s = "\<lparr>vals = fmap_of_list [(''k'', StringValue ''v'')], expirations = fmempty\<rparr>"
  have "no_orphans ?s" by (simp add: no_orphans_def)
  moreover have "view (clock2 (env_at 5)) ?s ''k'' \<noteq> None" by (simp add: view_def entry_of_def)
  moreover have "to_integer ''2'' = Some 2" by code_simp
  moreover have "(2 :: int) \<le> max_seconds (clock1 (env_at 5))" by code_simp
  ultimately show ?thesis
    using ttl_after_expire [of ?s "env_at 5" "''k''" "''2''" 2 2000000005 5 "env_at 1000000006" None]
    by (auto simp: env_at_def ticks_per_second_def)
qed

text \<open>C28. Once its deadline is reached, a key given to \<open>EXPIRE\<close> is as good as deleted: whatever is
  asked from then on, of this key or of others, has the replies and the log records it would have
  if the key had been removed.\<close>

theorem expired_as_deleted:
  assumes "no_orphans s" "clock1 env \<le> clock2 env" "view (clock2 env) s k \<noteq> None"
    and "to_integer n = Some i" "0 < i" "i \<le> max_seconds (clock1 env)"
    and "clock1 env + i * ticks_per_second \<le> t" "clock2 env \<le> t" "orderly clock1 clock2 t events"
    and "execute_command env (request [''EXPIRE'', k, n]) s log = (r, s', log')"
  shows "r = make_integer 1 \<and>
    fst (run execute_command events s' log2) = fst (run execute_command events (remove_key s k) log2) \<and>
    snd (snd (run execute_command events s' log2)) =
    snd (snd (run execute_command events (remove_key s k) log2))"
proof -
  obtain v d where live: "view (clock2 env) s k = Some (v, d)" using assms(3) by auto
  have verb: "to_upper ''EXPIRE'' = ''EXPIRE''" by code_simp
  obtain orphans: "no_orphans s'" and r: "r = make_integer 1"
    and seen: "view t s' = (view t s)(k := live t (Some (v, Some (clock1 env + i * ticks_per_second))))"
    using expire_view [OF assms(1,2) live verb assms(4-6), where log = log] assms(8,10) by (metis prod.inject)
  have "view t s' = view t (remove_key s k)"
    using seen assms(7) by (auto simp: view_def remove_key_entry fun_eq_iff)
  from run_replies_alike [OF orphans remove_key_entry(2) [OF assms(1)] this assms(9)] r
  show ?thesis by simp
qed

theorem expired_as_deleted_witness:
  "let s = \<lparr>vals = fmap_of_list [(''k'', StringValue ''v''), (''l'', StringValue ''w'')], expirations = fmempty\<rparr>;
       events = [(env_at 1000000007, request [''GET'', ''k'']), (env_at 1000000008, request [''GET'', ''l''])]
   in fst (run execute_command events
        (fst (snd (execute_command (env_at 5) (request [''EXPIRE'', ''k'', ''1'']) s None))) None) =
      fst (run execute_command events (remove_key s ''k'') None) \<and>
      fst (run execute_command events (remove_key s ''k'') None) = [make_null_bulk_string, make_bulk_string ''w'']"
proof -
  let ?s = "\<lparr>vals = fmap_of_list [(''k'', StringValue ''v''), (''l'', StringValue ''w'')], expirations = fmempty\<rparr>"
  let ?events = "[(env_at 1000000007, request [''GET'', ''k'']), (env_at 1000000008, request [''GET'', ''l''])]"
  obtain r s' log' where run: "execute_command (env_at 5) (request [''EXPIRE'', ''k'', ''1'']) ?s None = (r, s', log')"
    by (metis prod_cases3)
  have "no_orphans ?s" by (simp add: no_orphans_def)
  moreover have "view (clock2 (env_at 5)) ?s ''k'' \<noteq> None" by (simp add: view_def entry_of_def)
  moreover have "to_integer ''1'' = Some 1" by code_simp
  moreover have "(1 :: int) \<le> max_seconds (clock1 (env_at 5))" by code_simp
  moreover have "orderly clock1 clock2 1000000007 ?events" by code_simp
  moreover have "fst (run execute_command ?events (remove_key ?s ''k'') None) =
      [make_null_bulk_string, make_bulk_string ''w'']" by code_simp
  ultimately show ?thesis
    using expired_as_deleted [OF _ _ _ _ _ _ _ _ _ run, of 1 1000000007 ?events None] run
    by (simp add: env_at_def ticks_per_second_def)
qed

text \<open>The guard is exact: a positive number of seconds passes it just when the deadline fits the clock.\<close>

lemma max_seconds_exact:
  assumes "env_ok env" "0 < seconds"
  shows "seconds \<le> max_seconds (clock1 env) \<longleftrightarrow> fits_llong (clock1 env + seconds * ticks_per_second)"
  using assms
  by (auto simp: fits_llong_def env_ok_def max_seconds_def whole_seconds_def time_point_max_def
      ticks_per_second_def llong_defs)

text \<open>C29. \<open>EXPIRE\<close> with a positive number of seconds on a live key answers 1, gives the key the deadline asked for
  and logs it, whenever that deadline fits the 64-bit clock, to the last tick; when it does not fit,
  the command answers an error, logs nothing and leaves the store as it is.\<close>

theorem expire_guard_exact:
  assumes "no_orphans s" "env_ok env" "clock1 env \<le> clock2 env" "view (clock2 env) s k = Some (v, d)"
    and "to_integer n = Some i" "0 < i" "deadline = clock1 env + i * ticks_per_second"
    and "execute_command env (request [''EXPIRE'', k, n]) s log = (r, s', log')"
  shows "if fits_llong deadline
    then r = make_integer 1 \<and> log' = add_record (Deadline k (unix_time env + i)) log \<and>
      (\<forall>t \<ge> clock2 env. view t s' = (view t s)(k := if deadline \<le> t then None else Some (v, Some deadline)))
    else r = not_an_integer \<and> log' = log \<and> s' = s"
proof (cases "fits_llong deadline")
  case True
  then have "i \<le> max_seconds (clock1 env)"
    using max_seconds_exact [OF assms(2,6)] by (simp add: assms(7))
  note passed = this
  have verb: "to_upper ''EXPIRE'' = ''EXPIRE''" by code_simp
  obtain s1 where "execute_command env (request [''EXPIRE'', k, n]) s log =
      (make_integer 1, s1, add_record (Deadline k (unix_time env + i)) log)"
    "\<And>t. clock2 env \<le> t \<Longrightarrow> view t s1 = (view t s)(k := live t (Some (v, Some deadline)))"
    using expire_view [OF assms(1,3,4) verb assms(5,6) passed, where log = log] assms(7) by metis
  then show ?thesis using True assms(8) by (simp add: live_def not_le [symmetric])
next
  case False
  then have "max_seconds (clock1 env) < i"
    using max_seconds_exact [OF assms(2,6)] by (simp add: assms(7))
  moreover have "to_upper ''EXPIRE'' = ''EXPIRE''" by code_simp
  then have "execute_command env (request [''EXPIRE'', k, n]) s log =
      cmd_expire env (rv_elements (request [''EXPIRE'', k, n])) s log"
    using execute_dispatch [of "request [''EXPIRE'', k, n]" env s log] by (simp add: dispatch_def)
  moreover have "length (rv_elements (request [''EXPIRE'', k, n])) = 3" "arg (rv_elements (request [''EXPIRE'', k, n])) 2 = n"
    by (simp_all add: request_def make_defs arg_def)
  ultimately show ?thesis
    using False assms(5,8) by (simp add: cmd_expire_def Let_def)
qed

theorem expire_guard_exact_witness:
  "let s = \<lparr>vals = fmap_of_list [(''k'', StringValue ''v'')], expirations = fmempty\<rparr>
   in fst (execute_command (env_at 5) (request [''EXPIRE'', ''k'', ''9223372036'']) s None) = make_integer 1 \<and>
      fst (execute_command (env_at 5) (request [''EXPIRE'', ''k'', ''9223372037'']) s None) = not_an_integer"
proof -
  let ?s = "\<lparr>vals = fmap_of_list [(''k'', StringValue ''v'')], expirations = fmempty\<rparr>"
  have store: "no_orphans ?s" "env_ok (env_at 5)" "clock1 (env_at 5) \<le> clock2 (env_at 5)"
    "view (clock2 (env_at 5)) ?s ''k'' = Some (StringValue ''v'', None)"
    by (simp_all add: no_orphans_def env_ok_def env_at_def llong_defs view_def entry_of_def)
  have numbers: "to_integer ''9223372036'' = Some 9223372036" "to_integer ''9223372037'' = Some 9223372037"
    by code_simp+
  obtain r1 s1 log1 r2 s2 log2 where runs:
    "execute_command (env_at 5) (request [''EXPIRE'', ''k'', ''9223372036'']) ?s None = (r1, s1, log1)"
    "execute_command (env_at 5) (request [''EXPIRE'', ''k'', ''9223372037'']) ?s None = (r2, s2, log2)"
    by (metis prod_cases3)
  have "fits_llong (clock1 (env_at 5) + 9223372036 * ticks_per_second)"
    "\<not> fits_llong (clock1 (env_at 5) + 9223372037 * ticks_per_second)"
    by (simp_all add: env_at_def ticks_per_second_def fits_llong_def llong_defs)
  then show ?thesis
    using expire_guard_exact [OF store numbers(1) _ refl runs(1)] expire_guard_exact [OF store numbers(2) _ refl runs(2)]
    unfolding Let_def runs by simp
qed

text \<open>C30. A command answers \<open>WRONGTYPE\<close> just when its key is live and holds another kind of value.\<close>

theorem wrong_type_iff:
  assumes "no_orphans s" "clock1 env \<le> clock2 env" "words \<noteq> []" "decode words = Inr c"
  shows "fst (execute_command env (request words) s log) = wrong_type \<longleftrightarrow>
    (\<exists>v d. view (command_time env c) s (key_of c) = Some (v, d) \<and> \<not> accepts c v)"
proof -
  obtain r e recs where sp: "spec env c (view (command_time env c) s (key_of c)) = (r, e, recs)"
    by (metis prod_cases3)
  obtain s' where "execute_command env (request words) s log = (r, s', fold add_record recs log)"
    using execute_command_view [OF assms(1-4) sp, where log = log] by blast
  then have "fst (execute_command env (request words) s log) = r" by simp
  moreover have "r = wrong_type \<longleftrightarrow> (\<exists>v d. view (command_time env c) s (key_of c) = Some (v, d) \<and> \<not> accepts c v)"
  proof (cases "view (command_time env c) s (key_of c)")
    case None
    then show ?thesis using spec_missing_type sp by simp
  next
    case (Some entry)
    obtain v d where "entry = (v, d)" by (cases entry)
    then show ?thesis using spec_wrong_type [of env c v d r e recs] sp Some by simp
  qed
  ultimately show ?thesis by simp
qed

theorem wrong_type_iff_witness:
  "let s = \<lparr>vals = fmap_of_list [(''k'', HashValue fmempty)], expirations = fmempty\<rparr>
   in fst (execute_command (env_at 5) (request [''GET'', ''k'']) s None) = wrong_type \<and>
      fst (execute_command (env_at 5) (request [''GET'', ''l'']) s None) \<noteq> wrong_type"
proof -
  let ?s = "\<lparr>vals = fmap_of_list [(''k'', HashValue fmempty)], expirations = fmempty\<rparr>"
  have "no_orphans ?s" by (simp add: no_orphans_def)
  moreover have "decode [''GET'', ''k''] = Inr (Get ''k'')" "decode [''GET'', ''l''] = Inr (Get ''l'')" by code_simp+
  moreover have "view 5 ?s ''k'' = Some (HashValue fmempty, None)" "view 5 ?s ''l'' = None"
    by (simp_all add: view_def entry_of_def)
  ultimately show ?thesis
    using wrong_type_iff [of ?s "env_at 5" "[''GET'', ''k'']" "Get ''k''" None]
      wrong_type_iff [of ?s "env_at 5" "[''GET'', ''l'']" "Get ''l''" None]
    by (simp add: env_at_def)
qed

text \<open>\<open>LRANGE\<close> on a live list answers the slice its two indices denote, changes nothing, and
  with the indices 0 and -1 answers the whole list.\<close>

lemma lrange_slice:
  assumes "no_orphans s" "clock1 env \<le> clock2 env" "view (clock1 env) s k = Some (ListValue xs, d)"
    and "to_upper verb = ''LRANGE''" "to_integer n = Some i" "to_integer m = Some j"
    and "execute_command env (request [verb, k, n, m]) s log = (r, s', log')"
  shows "r = make_array (map make_bulk_string (slice xs i j)) \<and> log' = log \<and>
    view (clock1 env) s' = view (clock1 env) s \<and>
    ((i, j) = (0, - 1) \<longrightarrow> r = make_array (map make_bulk_string xs))"
proof -
  have "spec env (Lrange k i j) (view (command_time env (Lrange k i j)) s (key_of (Lrange k i j))) =
      (make_array (map make_bulk_string (slice xs i j)), Some (ListValue xs, d), [])"
    using assms(3) by (simp add: contents_def)
  from execute_command_view [OF assms(1,2) _ decode_verbs(10) [OF assms(4-6)] this, where log = log]
  obtain "r = make_array (map make_bulk_string (slice xs i j))" "log' = log"
    "view (clock1 env) s' = (view (clock1 env) s)(k := live (clock1 env) (Some (ListValue xs, d)))"
    using assms(7) by auto
  moreover have "live (clock1 env) (Some (ListValue xs, d)) = view (clock1 env) s k"
    using assms(3) by (metis live_live order_refl view_def)
  ultimately show ?thesis by (simp add: slice_whole fun_upd_idem)
qed

text \<open>\<open>HGET\<close> after \<open>HSET\<close> on a live hash without a deadline, or a missing key, returns the value set for
  that field and, for every other field, what the hash held before.\<close>

lemma hset_then_hget:
  assumes "no_orphans s"
    and "contents get_hash fmempty (view t s k) = Some h" "deadline_of (view t s k) = None"
    and "orderly clock1 clock2 t [(env1, request [''HSET'', k, f, x]), (env2, request [''HGET'', k, g])]"
  shows "fst (run execute_command
      [(env1, request [''HSET'', k, f, x]), (env2, request [''HGET'', k, g])] s log) =
    [make_integer (if fmlookup h f = None then 1 else 0),
     if g = f then make_bulk_string x
     else (case fmlookup h g of None \<Rightarrow> make_null_bulk_string | Some y \<Rightarrow> make_bulk_string y)]"
proof -
  have verbs: "to_upper ''HSET'' = ''HSET''" "to_upper ''HGET'' = ''HGET''" by code_simp+
  have "live u (view t s k) = view t s k" for u
    using assms(3) by (auto simp: live_def deadline_of_def split: option.splits)
  then show ?thesis
    using run_replies [OF assms(1,4), of log] assms(2,3)
    by (simp add: spec_step_decoded decode_verbs verbs with_value_def flag_def)
      (auto simp: contents_def split: option.splits)
qed

text \<open>Adding any words to a missing set, one \<open>SADD\<close> each, answers 1 exactly for the words that
  were not added before, as many times as there are different words, and \<open>SCARD\<close> then answers
  that number.\<close>

lemma set_counts_members:
  assumes "no_orphans s" "view t s k = None" "length envs = length xs"
    and "events = zip envs (map (\<lambda>x. request [''SADD'', k, x]) xs) @ [(env, request [''SCARD'', k])]"
    and "orderly clock1 clock2 t events"
  shows "fst (run execute_command events s log) =
      map flag (added {||} xs) @ [make_integer (int (card (set xs)))] \<and>
    length (filter id (added {||} xs)) = card (set xs)"
proof -
  let ?m = "fset_of_list xs"
  have verb: "to_upper ''SCARD'' = ''SCARD''" by code_simp
  have count: "fcard ?m = card (set xs)"
    by (simp add: fcard.rep_eq fset_of_list.rep_eq)
  have "view t s k = set_entry {||}" using assms(2) by (simp add: set_entry_def)
  from sadds [OF assms(3), of "view t s" k, OF this] obtain recs where
    "spec_run spec_step (zip envs (map (\<lambda>x. request [''SADD'', k, x]) xs)) (view t s) =
     (map flag (added {||} xs), (view t s)(k := set_entry ?m), recs)"
    by auto
  then have "fst (spec_run spec_step events (view t s)) =
      map flag (added {||} xs) @ [make_integer (int (fcard ?m))]"
    unfolding assms(4) spec_run_append by (simp add: spec_step_decoded decode_verbs verb)
  with run_replies [OF assms(1,5), of log] added_count [of "{||}" xs] show ?thesis
    by (simp add: count fcard_fempty)
qed

end
