(* ===== verification/Resp_Properties.thy ===== *)
theory Resp_Properties
  imports Resp_Roundtrip
begin

text \<open>
  The properties of the RESP layer: the parser and the serializer are inverse to each other, the
  parser may be run on any prefix of a stream, and its arithmetic stays in range.
\<close>

subsection \<open>Round trips\<close>

text \<open>C3. Parsing the bytes of a value that fits the depth limit gives the value back, consumes
  exactly its bytes, and leaves whatever follows alone.\<close>

theorem parse_serialize:
  assumes "canonical v" "nesting v \<le> kMaxDepth"
  shows "parse (serialize v @ rest) =
    \<lparr>pr_status = Ok, pr_value = v, pr_consumed = length (serialize v), pr_error = []\<rparr>"
  using assms by (intro parse_within_depth) (simp add: within_depth_def)

theorem parse_serialize_witness:
  "parse (serialize (make_array [make_bulk_string [CR, LF], make_null_bulk_string, make_integer (- 7)]) @ ''+'') =
    \<lparr>pr_status = Ok, pr_value = make_array [make_bulk_string [CR, LF], make_null_bulk_string, make_integer (- 7)],
     pr_consumed = length (serialize (make_array [make_bulk_string [CR, LF], make_null_bulk_string, make_integer (- 7)])),
     pr_error = []\<rparr>"
  by (rule parse_serialize)
    (simp_all add: make_defs fits_llong_def llong_defs nesting_le_iff kMaxDepth_def)

text \<open>C20. Whatever the parser accepts, its value is well-formed, within the depth limit, and
  serializes to bytes that parse to it again: a proxy may re-encode what it has read.\<close>

theorem parsed_reencodes:
  assumes "pr_status (parse buf) = Ok"
  shows "canonical (pr_value (parse buf)) \<and> nesting (pr_value (parse buf)) \<le> kMaxDepth \<and>
    pr_value (parse (serialize (pr_value (parse buf)) @ rest)) = pr_value (parse buf)"
proof -
  have "within_depth (pr_value (parse buf))"
    by (rule parsed_within_depth [OF parse_outcome_Ok [OF assms]])
  then show ?thesis by (simp add: parse_within_depth) (simp add: within_depth_def)
qed

theorem parsed_reencodes_witness:
  "canonical (pr_value (parse (serialize (make_integer 5) @ ''x'')))"
proof -
  have "pr_status (parse (serialize (make_integer 5) @ ''x'')) = Ok"
    by (simp add: parse_within_depth fits_llong_def llong_defs)
  from parsed_reencodes [OF this] show ?thesis by blast
qed

text \<open>A stream of values splits in one way only: two sequences of as many values with the same
  bytes are the same, and so is what follows them.\<close>

lemma stream_unambiguous:
  assumes "list_all within_depth vs" "list_all within_depth ws" "length vs = length ws"
    and "concat (map serialize vs) @ rest = concat (map serialize ws) @ rest'"
  shows "vs = ws \<and> rest = rest'"
  using assms by (rule resp.stream_inject)

subsection \<open>Incremental parsing\<close>

text \<open>C18. A verdict is final: once a buffer parses, or is malformed, more bytes change nothing.\<close>

theorem verdict_is_final:
  assumes "pr_status (parse buf) \<noteq> Incomplete"
  shows "parse (buf @ extra) = parse buf"
proof (cases "pr_status (parse buf)")
  case Ok
  from resp.step_more [OF parse_outcome_Ok [OF this]] show ?thesis
    using parse_outcome_Ok [OF Ok] by (metis parse_eq_Complete)
next
  case Malformed
  obtain st p v e where r: "parse_value buf 0 default_value [] 1 = (st, p, v, e)" by (metis prod_cases4)
  with Malformed have "st = Malformed" by (simp add: parse_def)
  with r parse_value_Malformed_more [of buf] show ?thesis by (simp add: parse_def)
qed (use assms in simp)

theorem verdict_is_final_witness:
  "parse (''?'' @ ''+OK'') = parse ''?'' \<and> pr_status (parse ''?'') = Malformed"
proof -
  have "pr_status (parse ''?'') = Malformed"
    by (simp add: parse_def parse_value_unknown known_prefix_def kMaxDepth_def)
  with verdict_is_final [of "''?''" "''+OK''"] show ?thesis by simp
qed

text \<open>C19. A parsed value ends where the parser says: it takes at least one byte, its own bytes
  suffice, and any shorter prefix is incomplete, neither accepted nor refused.\<close>

theorem consumed_exactly:
  assumes "pr_status (parse buf) = Ok"
  shows "0 < pr_consumed (parse buf) \<and> pr_consumed (parse buf) \<le> length buf \<and>
    parse (take (pr_consumed (parse buf)) buf) = parse buf \<and>
    (\<forall>k < pr_consumed (parse buf). pr_status (parse (take k buf)) = Incomplete)"
proof -
  note ok = parse_outcome_Ok [OF assms]
  have "parse_outcome (take (pr_consumed (parse buf)) buf) = Complete (pr_value (parse buf)) (pr_consumed (parse buf))"
    using resp.step_agree [OF ok, of "take (pr_consumed (parse buf)) buf"] resp.step_bounds [OF ok] by simp
  then have "parse (take (pr_consumed (parse buf)) buf) = parse buf"
    using ok by (metis parse_eq_Complete)
  with resp.step_bounds [OF ok] resp.step_inside [OF ok] show ?thesis
    by (simp add: parse_outcome_More_iff)
qed

theorem consumed_exactly_witness:
  "0 < pr_consumed (parse (serialize make_null_bulk_string @ ''x'')) \<and>
   pr_status (parse (take 2 (serialize make_null_bulk_string @ ''x''))) = Incomplete"
proof -
  have "within_depth make_null_bulk_string"
    by (simp add: within_depth_def make_defs nesting_le_iff kMaxDepth_def)
  from parse_within_depth [OF this, of "''x''"]
  have "parse (serialize make_null_bulk_string @ ''x'') =
      \<lparr>pr_status = Ok, pr_value = make_null_bulk_string, pr_consumed = length (serialize make_null_bulk_string), pr_error = []\<rparr>" .
  moreover have "2 < length (serialize make_null_bulk_string)" by code_simp
  ultimately show ?thesis
    using consumed_exactly [of "serialize make_null_bulk_string @ ''x''"] by simp
qed

subsection \<open>Bounds\<close>

text \<open>C31. The depth limit counts the innermost value as a level: a value inside \<open>n\<close> arrays, itself
  no array, is accepted for \<open>n\<close> up to 127, and from 128 arrays on the input is refused, whatever
  follows the headers of the arrays.\<close>

theorem depth_limit:
  assumes "within_depth v" "nesting v = 1"
  shows "(pr_status (parse (array_headers n @ serialize v @ rest)) = Ok \<longleftrightarrow> n < 128) \<and>
    (128 \<le> n \<longrightarrow> pr_status (parse (array_headers n @ rest)) = Malformed \<and>
       pr_error (parse (array_headers n @ rest)) = depth_error)"
proof -
  have refused: "pr_status (parse (array_headers n @ tail)) = Malformed \<and>
      pr_error (parse (array_headers n @ tail)) = depth_error" if "128 \<le> n" for tail
    using array_headers_too_deep [of 1 n "[]" tail default_value "[]"] that by (auto simp: parse_def)
  have accepted: "pr_status (parse (array_headers n @ serialize v @ rest)) = Ok" if "n < 128"
  proof -
    have "within_depth (nested_value n v)"
      using nested_within [OF assms, of n] that by (simp add: within_depth_def kMaxDepth_def)
    from parse_within_depth [OF this, of rest] show ?thesis by (simp add: serialize_nested)
  qed
  show ?thesis
    using refused [of "serialize v @ rest"] refused [of rest] accepted by (cases "n < 128") auto
qed

theorem depth_limit_witness:
  "pr_status (parse (array_headers 127 @ serialize (make_integer 5))) = Ok \<and>
   pr_status (parse (array_headers 128)) = Malformed"
proof -
  have "within_depth (make_integer 5)" by (simp add: fits_llong_def llong_defs)
  moreover have "nesting (make_integer 5) = 1" by (simp add: make_defs nesting.simps)
  ultimately show ?thesis
    using depth_limit [of "make_integer 5" 127 "[]"] depth_limit [of "make_integer 5" 128 "[]"] by simp
qed

text \<open>C36. The number reader accepts exactly the decimal numerals, with an optional minus sign and
  nothing around them, of the 64-bit integers, and returns the number they denote.\<close>

theorem to_integer_grammar:
  "to_integer text = Some n \<longleftrightarrow> decimal_text text n \<and> fits_llong n"
  using to_integer_if_decimal decimal_if_to_integer to_integer_fits by blast

text \<open>The printed form of every 64-bit integer fits the 24-byte buffer \<open>append_number\<close> gives
  \<open>to_chars\<close>, and reads back as the integer.\<close>

lemma printed_integer_fits:
  assumes "fits_llong n"
  shows "length (to_string n) \<le> 20 \<and> to_integer (to_string n) = Some n"
  using assms by (simp add: to_string_length_llong)



text \<open>The room an array reserves is never more than the bytes that are left, however large the
  announced count, and it is enough: an array that parses has no more elements than that.\<close>

lemma reserve_enough:
  assumes "0 \<le> count" "count \<le> LLONG_MAX" "pos \<le> length input"
    and "parse_elements (\<lambda>p v e. parse_value input p v e depth) 0 count pos out error = (Ok, p', v', e')"
  shows "reservable input pos count \<le> length input - pos \<and> reservable input pos count = nat count"
proof -
  have "unat (word_of_int count :: 64 word) = nat count"
    by (rule bulk_needed_eq(3)) (use assms in auto)
  moreover have "pos + nat count \<le> length input"
    using parse_elements_advances [OF assms(4) parse_value_advances assms(3)] by simp
  ultimately show ?thesis by (simp add: reservable_def)
qed

end
