(* ===== verification/Reply_Types.thy ===== *)
theory Reply_Types
  imports Keyspace_Laws
begin

text \<open>
  The types of replies: for each verb the RESP type its replies have, and whether they may be null.
\<close>

definition reply_type :: "string \<Rightarrow> (RespType \<times> bool) option" where
  "reply_type = map_of
     [(''PING'', SimpleString, False), (''DEL'', Integer, False), (''EXPIRE'', Integer, False),
      (''TTL'', Integer, False), (''SET'', SimpleString, False), (''GET'', BulkString, True),
      (''LPUSH'', Integer, False), (''RPUSH'', Integer, False), (''LPOP'', BulkString, True),
      (''RPOP'', BulkString, True), (''LLEN'', Integer, False), (''LRANGE'', Array, False),
      (''HSET'', Integer, False), (''HGET'', BulkString, True), (''HDEL'', Integer, False),
      (''HEXISTS'', Integer, False), (''HLEN'', Integer, False), (''SADD'', Integer, False),
      (''SREM'', Integer, False), (''SISMEMBER'', Integer, False), (''SCARD'', Integer, False),
      (''SMEMBERS'', Array, False)]"

text \<open>A value of a type: null only where it may be, and the elements of an array are strings.\<close>

definition has_type :: "RespValue \<Rightarrow> RespType \<times> bool \<Rightarrow> bool" where
  "has_type r t \<longleftrightarrow> rv_type r = fst t \<and> (rv_is_null r \<longrightarrow> snd t) \<and>
     list_all (\<lambda>e. rv_type e = BulkString \<and> \<not> rv_is_null e) (rv_elements r)"

lemma has_type_makers [simp]:
  "has_type (make_simple_string s) (SimpleString, b)" "has_type (make_integer n) (Integer, b)"
  "has_type (make_bulk_string s) (BulkString, b)" "has_type make_null_bulk_string (BulkString, True)"
  "has_type (make_array (map make_bulk_string xs)) (Array, b)" "has_type (make_array []) (Array, b)"
  "has_type (flag c) (Integer, b)"
  by (simp_all add: has_type_def make_defs flag_def list_all_iff)

fun command_type :: "command \<Rightarrow> RespType \<times> bool" where
  "command_type Ping = (SimpleString, False)"
| "command_type (Set k s) = (SimpleString, False)"
| "command_type (Get k) = (BulkString, True)"
| "command_type (Pop d k) = (BulkString, True)"
| "command_type (Hget k f) = (BulkString, True)"
| "command_type (Lrange k i j) = (Array, False)"
| "command_type (Smembers k) = (Array, False)"
| "command_type c = (Integer, False)"

lemma errors_are_errors [simp]:
  "rv_type wrong_type = Error" "rv_type not_an_integer = Error" "rv_type bad_request = Error"
  "rv_type (wrong_arity name) = Error" "rv_type (make_error s) = Error"
  by (simp_all add: wrong_type_def not_an_integer_def bad_request_def wrong_arity_def make_defs)

lemma spec_typed: "spec env c e = (r, e', recs) \<Longrightarrow> rv_type r = Error \<or> has_type r (command_type c)"
  by (cases c) (auto split: option.splits if_splits prod.splits Value.splits)

lemma decode_typed: "decode words = Inr c \<Longrightarrow> reply_type (to_upper (words ! 0)) = Some (command_type c)"
  by (auto simp: decode_def arity_of_def build_def reply_type_def split: option.splits if_splits)

text \<open>C15. Replies are typed: whatever the keys hold, the reply to a request is an error or has the type of its
  command, it is null only for the commands that look a value up, and the elements of an array are
  bulk strings, none of them null.\<close>

theorem replies_typed:
  assumes "no_orphans s" "execute_command env (request words) s log = (r, s', log')"
  shows "rv_type r = Error \<or> (\<exists>t. reply_type (to_upper (words ! 0)) = Some t \<and> has_type r t)"
  using assms
proof (cases rule: execute_request_cases)
  case empty
  then show ?thesis by simp
next
  case error
  then show ?thesis using decode_undecodable by blast
next
  case (command c)
  then have "rv_type r = Error \<or> has_type r (command_type c)"
    using spec_typed by (auto simp: implements_def Let_def split: prod.splits)
  with decode_typed [OF command(2)] show ?thesis by blast
qed

theorem replies_typed_witness:
  "let r = fst (execute_command (env_at 5) (request [''lrange'', ''k'', ''0'', ''0''])
     \<lparr>vals = fmap_of_list [(''k'', ListValue [''a'', ''b''])], expirations = fmempty\<rparr> None)
   in rv_type r \<noteq> Error \<and> has_type r (Array, False)"
proof -
  let ?s = "\<lparr>vals = fmap_of_list [(''k'', ListValue [''a'', ''b''])], expirations = fmempty\<rparr>"
  let ?words = "[''lrange'', ''k'', ''0'', ''0'']"
  obtain r s' log' where run: "execute_command (env_at 5) (request ?words) ?s None = (r, s', log')"
    by (metis prod_cases3)
  have "rv_type (fst (execute_command (env_at 5) (request ?words) ?s None)) \<noteq> Error" by code_simp
  with run have "rv_type r \<noteq> Error" by simp
  moreover have "no_orphans ?s" by (simp add: no_orphans_def)
  moreover have "reply_type (to_upper ''lrange'') = Some (Array, False)" by code_simp
  ultimately have "has_type r (Array, False)" using replies_typed [OF _ run] by auto
  with \<open>rv_type r \<noteq> Error\<close> show ?thesis unfolding run Let_def by simp
qed

end
