(* ===== verification/Replay.thy ===== *)
theory Replay
  imports Commands
begin

text \<open>
  Reading the append-only log back: the bottom half of \<open>src/persistence.cpp\<close>.

  \<^item> A log file cannot be opened (\<open>Absent\<close>), has no size (\<open>Unsized\<close>), or holds bytes.
  \<^item> \<open>ifstream\<close> is the open stream: how many bytes were read (\<open>tellg\<close>) and the bytes that were
    not. \<open>get_char\<close>, \<open>read_word\<close> and \<open>read_number\<close> are \<open>get\<close> and the two extractions of the
    standard library that the source uses, in the classic locale. A stream that failed is not
    read again, so only the outcome of an operation is kept and not the state flags.
  \<^item> \<open>replay_record\<close> is the body of the loop after the verb, \<open>replay_loop\<close> the loop,
    \<open>replay_log\<close> the function. Every early return is \<open>Inl\<close> of its message. A record is executed
    in an environment of its own, which depends on its number.
\<close>

subsection \<open>Streams\<close>

datatype log_file = Absent | Unsized | Contents string

record ifstream =
  tellg :: nat
  unread :: string

definition skip :: "nat \<Rightarrow> ifstream \<Rightarrow> ifstream" where
  "skip n s = \<lparr>tellg = tellg s + n, unread = drop n (unread s)\<rparr>"

definition get_char :: "ifstream \<Rightarrow> char option \<times> ifstream" where
  "get_char s = (case unread s of [] \<Rightarrow> (None, s) | c # cs \<Rightarrow> (Some c, skip 1 s))"

definition skip_spaces :: "ifstream \<Rightarrow> ifstream" where
  "skip_spaces s = skip (length (takeWhile is_space (unread s))) s"

text \<open>\<open>in >> verb\<close>\<close>

definition read_word :: "ifstream \<Rightarrow> string option \<times> ifstream" where
  "read_word s =
     (let s = skip_spaces s; word = takeWhile (\<lambda>c. \<not> is_space c) (unread s)
      in if word = [] then (None, s) else (Some word, skip (length word) s))"

text \<open>\<open>in >> number\<close> for a \<open>long long\<close>: spaces, an optional sign, digits.\<close>

definition read_number :: "ifstream \<Rightarrow> int option \<times> ifstream" where
  "read_number s =
     (let s = skip_spaces s;
          signed = (unread s \<noteq> [] \<and> (hd (unread s) = CHR ''-'' \<or> hd (unread s) = CHR ''+''));
          negative = (signed \<and> hd (unread s) = CHR ''-'');
          s = (if signed then skip 1 s else s);
          ds = takeWhile is_digit (unread s);
          s = skip (length ds) s;
          number = (if negative then - digits_value ds else digits_value ds)
      in if ds = [] \<or> \<not> fits_llong number then (None, s) else (Some number, s))"

subsection \<open>Records\<close>

definition kRecordShapes :: "(string \<times> int) list" where
  "kRecordShapes =
     [(''SET'', 2), (''DEL'', 1), (''LPUSH'', 2), (''RPUSH'', 2), (''LPOP'', 1), (''RPOP'', 1),
      (''HSET'', 3), (''HDEL'', 2), (''SADD'', 2), (''SREM'', 2)]"

definition arguments_for :: "string \<Rightarrow> int" where
  "arguments_for verb =
     (case find (\<lambda>(v, n). verb = v) kRecordShapes of None \<Rightarrow> - 1 | Some (v, n) \<Rightarrow> n)"

definition read_field :: "ifstream \<Rightarrow> int \<Rightarrow> string option \<times> ifstream" where
  "read_field s limit =
     (case read_number s of
        (None, s) \<Rightarrow> (None, s)
      | (Some len, s) \<Rightarrow>
          if len < 0 then (None, s)
          else (case get_char s of (c, s) \<Rightarrow>
            if c \<noteq> Some SPACE then (None, s)
            else let here = int (tellg s) in
              if here < 0 \<or> len > limit - here then (None, s)
              else if length (unread s) < nat len then (None, s)
              else (Some (take (nat len) (unread s)), skip (nat len) s)))"

definition as_request :: "string list \<Rightarrow> RespValue" where
  "as_request words = make_array (map make_bulk_string words)"

definition record_error :: "int \<Rightarrow> string \<Rightarrow> string" where
  "record_error record_number detail =
     ''malformed persistence record #'' @ to_string record_number @ '': '' @ detail"

subsection \<open>The loop\<close>

text \<open>The arguments after the key: \<open>left\<close> of them, the first being argument number \<open>i + 1\<close>.\<close>

fun read_arguments ::
  "int \<Rightarrow> int \<Rightarrow> int \<Rightarrow> nat \<Rightarrow> string list \<Rightarrow> ifstream \<Rightarrow> string + string list \<times> ifstream"
where
  "read_arguments limit record_number i 0 words s = Inr (words, s)"
| "read_arguments limit record_number i (Suc left) words s =
     (case get_char s of (c, s) \<Rightarrow>
        if c \<noteq> Some SPACE
        then Inl (record_error record_number (''expected a space before argument '' @ to_string (i + 1)))
        else (case read_field s limit of
            (None, s) \<Rightarrow> Inl (record_error record_number (''bad argument '' @ to_string (i + 1)))
          | (Some argument, s) \<Rightarrow>
              read_arguments limit record_number (i + 1) left (words @ [argument]) s))"

definition run_words :: "Env \<Rightarrow> string list \<Rightarrow> Store \<Rightarrow> Store" where
  "run_words env words loaded = fst (snd (execute_command env (as_request words) loaded None))"

definition replay_deadline :: "Env \<Rightarrow> string \<Rightarrow> int \<Rightarrow> Store \<Rightarrow> Store" where
  "replay_deadline env key deadline loaded =
     (let remaining = deadline - unix_time env in
      if remaining \<le> 0 then run_words env [''DEL'', key] loaded
      else run_words env [''EXPIRE'', key, to_string remaining] loaded)"

definition replay_record ::
  "Env \<Rightarrow> int \<Rightarrow> int \<Rightarrow> string \<Rightarrow> ifstream \<Rightarrow> Store \<Rightarrow> string + Store \<times> ifstream"
where
  "replay_record env limit record_number verb s loaded =
     (case get_char s of (c, s) \<Rightarrow>
        if c \<noteq> Some SPACE
        then Inl (record_error record_number (''expected a space after '' @ verb))
        else (case read_field s limit of
            (None, s) \<Rightarrow> Inl (record_error record_number ''bad key field'')
          | (Some key, s) \<Rightarrow>
              if verb = ''EXPIRE'' then
                (case get_char s of (c, s) \<Rightarrow>
                   if c \<noteq> Some SPACE
                   then Inl (record_error record_number ''expected a space before the deadline'')
                   else (case read_number s of
                       (None, s) \<Rightarrow> Inl (record_error record_number ''bad deadline'')
                     | (Some deadline, s) \<Rightarrow>
                         (case get_char s of (c, s) \<Rightarrow>
                            if c \<noteq> Some LF
                            then Inl (record_error record_number ''record does not end with a newline'')
                            else Inr (replay_deadline env key deadline loaded, s))))
              else
                let expected = arguments_for verb in
                if expected < 0
                then Inl (record_error record_number
                  (''unknown record type '' @ [QUOTE] @ verb @ [QUOTE]))
                else (case read_arguments limit record_number 1 (nat (expected - 1)) [verb, key] s of
                    Inl error \<Rightarrow> Inl error
                  | Inr (words, s) \<Rightarrow>
                      (case get_char s of (c, s) \<Rightarrow>
                         if c \<noteq> Some LF
                         then Inl (record_error record_number ''record does not end with a newline'')
                         else Inr (run_words env words loaded, s)))))"

subsection \<open>No operation puts bytes back\<close>

definition behind :: "ifstream \<Rightarrow> ifstream \<Rightarrow> bool" where
  "behind s s' \<longleftrightarrow> (\<exists>n. n \<le> length (unread s) \<and> s' = skip n s)"

lemma skip_0 [simp]: "skip 0 s = s"
  by (simp add: skip_def)

lemma skip_skip [simp]: "skip m (skip n s) = skip (n + m) s"
  by (simp add: skip_def add.commute)

lemma skip_fields [simp]: "tellg (skip n s) = tellg s + n" "unread (skip n s) = drop n (unread s)"
  by (simp_all add: skip_def)

lemma behind_refl [simp]: "behind s s"
  unfolding behind_def by (intro exI [of _ 0]) simp

lemma behind_trans: "behind r s \<Longrightarrow> behind s t \<Longrightarrow> behind r t"
  unfolding behind_def
proof clarify
  fix n m assume "n \<le> length (unread r)" "m \<le> length (unread (skip n r))"
  then show "\<exists>k \<le> length (unread r). skip m (skip n r) = skip k r"
    by (intro exI [of _ "n + m"]) auto
qed

lemma behind_length: "behind s s' \<Longrightarrow> length (unread s') \<le> length (unread s)"
  by (auto simp: behind_def)

lemma behind_skip: "n \<le> length (unread s) \<Longrightarrow> behind s (skip n s)"
  by (auto simp: behind_def)

lemma get_char_behind: "get_char s = (c, s') \<Longrightarrow> behind s s'"
  by (auto simp: get_char_def intro!: behind_skip split: list.splits)

lemma skip_spaces_behind: "behind s (skip_spaces s)"
  unfolding skip_spaces_def by (rule behind_skip) (rule length_takeWhile_le)

lemma read_word_behind: "read_word s = (w, s') \<Longrightarrow> behind s s'"
  using skip_spaces_behind [of s]
  by (auto simp: read_word_def Let_def length_takeWhile_le intro: behind_trans [OF _ behind_skip] split: if_splits)

lemma read_word_less:
  "read_word s = (Some w, s') \<Longrightarrow> length (unread s') < length (unread s)"
  using behind_length [OF skip_spaces_behind, of s]
  by (auto simp: read_word_def Let_def split: if_splits)
    (metis diff_less length_greater_0_conv le_trans length_takeWhile_le not_less)

lemma read_number_behind: "read_number s = (n, s') \<Longrightarrow> behind s s'"
proof -
  assume read: "read_number s = (n, s')"
  let ?s = "skip_spaces s"
  let ?t = "if unread ?s \<noteq> [] \<and> (hd (unread ?s) = CHR ''-'' \<or> hd (unread ?s) = CHR ''+'')
      then skip 1 ?s else ?s"
  have "behind s ?t"
    using skip_spaces_behind [of s] behind_trans [OF _ behind_skip [of 1 ?s]]
    by (cases "unread ?s") auto
  moreover have "s' = skip (length (takeWhile is_digit (unread ?t))) ?t"
    using read by (auto simp: read_number_def Let_def split: if_splits)
  ultimately show "behind s s'"
    using behind_trans [OF _ behind_skip [OF length_takeWhile_le]] by blast
qed

lemma read_field_behind: "read_field s limit = (f, s') \<Longrightarrow> behind s s'"
  by (auto simp: read_field_def Let_def split: prod.splits option.splits if_splits
      dest!: read_number_behind get_char_behind)
    (meson behind_trans behind_skip not_less)+

lemma read_arguments_behind:
  "read_arguments limit n i left words s = Inr (words', s') \<Longrightarrow> behind s s'"
proof (induction left arbitrary: i words s)
  case (Suc left)
  obtain c s1 where get: "get_char s = (c, s1)" by (cases "get_char s")
  with Suc.prems have c: "c = Some SPACE" by (auto split: if_splits)
  obtain f s2 where field: "read_field s1 limit = (f, s2)" by (cases "read_field s1 limit")
  with Suc.prems get c obtain argument where "f = Some argument"
    "read_arguments limit n (i + 1) left (words @ [argument]) s2 = Inr (words', s')"
    by (auto split: option.splits)
  from Suc.IH [OF this(2)] show ?case
    using behind_trans get_char_behind [OF get] read_field_behind [OF field] by blast
qed simp

lemma replay_record_behind:
  "replay_record env limit n verb s loaded = Inr (loaded', s') \<Longrightarrow> behind s s'"
  by (auto simp: replay_record_def Let_def split: prod.splits option.splits if_splits sum.splits
      dest!: read_number_behind get_char_behind read_field_behind read_arguments_behind)
    (meson behind_trans)+

function replay_loop ::
  "(int \<Rightarrow> Env) \<Rightarrow> int \<Rightarrow> int \<Rightarrow> ifstream \<Rightarrow> Store \<Rightarrow> string + Store"
where
  "replay_loop env limit record_number s loaded =
     (case read_word s of
        (None, s) \<Rightarrow> Inr loaded
      | (Some verb, s) \<Rightarrow>
          let record_number = record_number + 1 in
          (case replay_record (env record_number) limit record_number verb s loaded of
             Inl error \<Rightarrow> Inl error
           | Inr (loaded, s) \<Rightarrow> replay_loop env limit record_number s loaded))"
  by pat_completeness auto
termination
proof (relation "measure (\<lambda>(env, limit, n, s, loaded). length (unread s))", goal_cases)
  case (2 env limit n s loaded w s1 verb m r loaded' s')
  then show ?case
    using read_word_less [of s verb s1] behind_length [OF replay_record_behind] by fastforce
qed simp

declare replay_loop.simps [simp del]

definition replay_log ::
  "(int \<Rightarrow> Env) \<Rightarrow> string \<Rightarrow> log_file \<Rightarrow> Store \<Rightarrow> string \<Rightarrow> bool \<times> Store \<times> string"
where
  "replay_log env path file store error =
     (case file of
        Absent \<Rightarrow> (True, store, error)
      | Unsized \<Rightarrow> (False, store, ''cannot determine the size of '' @ path)
      | Contents bytes \<Rightarrow>
          (case replay_loop env (int (length bytes)) 0 \<lparr>tellg = 0, unread = bytes\<rparr> empty_store of
             Inl error \<Rightarrow> (False, store, error)
           | Inr loaded \<Rightarrow> (True, loaded, error)))"

text \<open>\<open>open_log\<close>: an existing log is opened for appending, so it keeps its bytes.\<close>

definition open_log :: "log_file \<Rightarrow> bool \<Rightarrow> bool \<times> log" where
  "open_log file openable =
     (if \<not> openable then (False, None)
      else (True, Some (case file of Contents bytes \<Rightarrow> bytes | _ \<Rightarrow> [])))"

end
