(* ===== verification/Replay_Laws.thy ===== *)
theory Replay_Laws
  imports Replay Machine
begin

text \<open>
  Reading what was written: every reader of \<open>replay_log\<close> on the bytes of its writer, up to the
  loop on the bytes of any list of records.
\<close>

subsection \<open>Words, numbers and fields\<close>

lemma get_char_Cons [simp]: "unread s = c # r \<Longrightarrow> get_char s = (Some c, skip 1 s)"
  by (simp add: get_char_def)

lemma get_char_Nil [simp]: "unread s = [] \<Longrightarrow> get_char s = (None, s)"
  by (simp add: get_char_def)

lemma skip_spaces_none: "unread s = c # r \<Longrightarrow> \<not> is_space c \<Longrightarrow> skip_spaces s = s"
  by (simp add: skip_spaces_def)

lemma takeWhile_stop: "list_all P xs \<Longrightarrow> \<not> P c \<Longrightarrow> takeWhile P (xs @ c # r) = xs"
  by (induction xs) auto

lemma read_word_written:
  assumes "w \<noteq> []" "list_all (\<lambda>c. \<not> is_space c) w" "unread s = w @ c # r" "is_space c"
  shows "read_word s = (Some w, skip (length w) s)"
proof -
  obtain x xs where "w = x # xs" using assms(1) by (cases w) auto
  with assms have "skip_spaces s = s" by (intro skip_spaces_none) auto
  then show ?thesis
    using assms takeWhile_stop [OF assms(2), of c r] by (simp add: read_word_def Let_def)
qed

lemma read_word_end: "unread s = [] \<Longrightarrow> fst (read_word s) = None"
  by (simp add: read_word_def skip_spaces_def)

lemma magnitude_all_digits: "0 \<le> n \<Longrightarrow> list_all is_digit (magnitude n)"
  using magnitude_digits by (simp add: list_all_iff)

lemma read_number_written:
  assumes "fits_llong n" "unread s = to_string n @ c # r" "\<not> is_digit c"
  shows "read_number s = (Some n, skip (length (to_string n)) s)"
proof -
  obtain x xs where x: "to_string n = x # xs" using to_string_nonempty by (cases "to_string n") auto
  then have "\<not> is_space x" using to_string_no_space [of x n] by simp
  with x assms(2) have spaces: "skip_spaces s = s" by (intro skip_spaces_none) auto
  show ?thesis
  proof (cases "n < 0")
    case True
    then have bytes: "unread s = CHR ''-'' # magnitude (- n) @ c # r"
      using assms(2) by (simp add: to_string_def)
    have "takeWhile is_digit (magnitude (- n) @ c # r) = magnitude (- n)"
      using True assms(3) by (intro takeWhile_stop magnitude_all_digits) auto
    with True bytes spaces assms(1) show ?thesis
      by (simp add: read_number_def Let_def to_string_def)
  next
    case False
    then have bytes: "unread s = magnitude n @ c # r"
      using assms(2) by (simp add: to_string_def)
    have "takeWhile is_digit (magnitude n @ c # r) = magnitude n"
      using False assms(3) by (intro takeWhile_stop magnitude_all_digits) auto
    moreover have "hd (magnitude n @ c # r) \<noteq> CHR ''-''" "hd (magnitude n @ c # r) \<noteq> CHR ''+''"
      using False magnitude_all_digits [of n] by (cases "magnitude n"; auto simp: is_digit_def)+
    ultimately show ?thesis
      using False bytes spaces assms(1) by (simp add: read_number_def Let_def to_string_def)
  qed
qed

definition field_ok :: "string \<Rightarrow> bool" where
  "field_ok w \<longleftrightarrow> int (length w) \<le> LLONG_MAX"

lemma read_field_written:
  assumes "field_ok w" "unread s = field_bytes w @ r"
    and "limit = int (tellg s + length (unread s))"
  shows "read_field s limit = (Some w, skip (length (field_bytes w)) s)"
proof -
  let ?n = "to_string (int (length w))"
  have "fits_llong (int (length w))"
    using assms(1) by (simp add: field_ok_def fits_llong_def LLONG_MIN_def)
  then have "read_number s = (Some (int (length w)), skip (length ?n) s)"
    using assms(2) by (intro read_number_written [where c = SPACE and r = "w @ r"])
      (simp_all add: field_bytes_def is_digit_def)
  moreover have "get_char (skip (length ?n) s) = (Some SPACE, skip (Suc (length ?n)) s)"
    using assms(2) by (subst get_char_Cons [where r = "w @ r"]) (simp_all add: field_bytes_def)
  ultimately show ?thesis
    using assms(2,3) by (simp add: read_field_def Let_def field_bytes_def add.commute)
qed

lemma read_arguments_written:
  "list_all field_ok args \<Longrightarrow> unread s = concat (map (\<lambda>a. SPACE # field_bytes a) args) @ r \<Longrightarrow>
   limit = int (tellg s + length (unread s)) \<Longrightarrow>
   read_arguments limit n i (length args) words s =
     Inr (words @ args, skip (length (concat (map (\<lambda>a. SPACE # field_bytes a) args))) s)"
proof (induction args arbitrary: i words s)
  case (Cons a args)
  have get: "get_char s = (Some SPACE, skip 1 s)"
    by (rule get_char_Cons) (use Cons.prems(2) in simp)
  have field: "read_field (skip 1 s) limit = (Some a, skip (length (field_bytes a)) (skip 1 s))"
    using Cons.prems
    by (intro read_field_written [where r = "concat (map (\<lambda>a. SPACE # field_bytes a) args) @ r"]) auto
  have "read_arguments limit n (i + 1) (length args) (words @ [a]) (skip (Suc (length (field_bytes a))) s) =
     Inr ((words @ [a]) @ args, skip (length (concat (map (\<lambda>a. SPACE # field_bytes a) args)))
       (skip (Suc (length (field_bytes a))) s))"
    by (rule Cons.IH) (use Cons.prems in auto)
  with get field show ?case by (simp add: add.commute add.left_commute)
qed simp

subsection \<open>Records\<close>

text \<open>A record as the writers make it: a known verb with its number of arguments, or a deadline.\<close>

fun record_shape_ok :: "log_record \<Rightarrow> bool" where
  "record_shape_ok (Command verb args) \<longleftrightarrow> args \<noteq> [] \<and> arguments_for verb = int (length args)"
| "record_shape_ok (Deadline key deadline) = True"

text \<open>Its fields and its number are within the range of the readers.\<close>

fun record_fits :: "log_record \<Rightarrow> bool" where
  "record_fits (Command verb args) = list_all field_ok args"
| "record_fits (Deadline key deadline) \<longleftrightarrow> field_ok key \<and> fits_llong deadline"

fun redo :: "Env \<Rightarrow> log_record \<Rightarrow> Store \<Rightarrow> Store" where
  "redo env (Command verb args) loaded = run_words env (verb # args) loaded"
| "redo env (Deadline key deadline) loaded = replay_deadline env key deadline loaded"

abbreviation (input) redo_all :: "(int \<Rightarrow> Env) \<Rightarrow> int \<Rightarrow> log_record list \<Rightarrow> Store \<Rightarrow> Store" where
  "redo_all env \<equiv> redo_from (\<lambda>n. redo (env n))"

lemma known_verbs:
  "0 \<le> arguments_for verb \<Longrightarrow> verb \<in>
    {''SET'', ''DEL'', ''LPUSH'', ''RPUSH'', ''LPOP'', ''RPOP'', ''HSET'', ''HDEL'', ''SADD'', ''SREM''}"
  by (auto simp: arguments_for_def kRecordShapes_def split: if_splits)

lemma known_verb_word:
  "0 \<le> arguments_for verb \<Longrightarrow>
   verb \<noteq> [] \<and> list_all (\<lambda>c. \<not> is_space c) verb \<and> verb \<noteq> ''EXPIRE''"
  by (drule known_verbs) (auto simp: is_space_def)

lemma replay_command_written:
  assumes "record_shape_ok (Command verb args)" "record_fits (Command verb args)"
    and "unread s = concat (map (\<lambda>a. SPACE # field_bytes a) args) @ LF # r"
    and "limit = int (tellg s + length (unread s))"
  shows "replay_record env limit n verb s loaded =
    Inr (run_words env (verb # args) loaded, skip (length (concat (map (\<lambda>a. SPACE # field_bytes a) args)) + 1) s)"
proof -
  obtain key rest where args: "args = key # rest" using assms(1) by (cases args) auto
  have count: "nat (arguments_for verb - 1) = length rest" "0 \<le> arguments_for verb"
    using assms(1) args by simp_all
  let ?s1 = "skip 1 s" and ?s2 = "skip (length (field_bytes key)) (skip 1 s)"
  let ?tail = "concat (map (\<lambda>a. SPACE # field_bytes a) rest)"
  have one: "get_char s = (Some SPACE, ?s1)"
    by (rule get_char_Cons) (use assms(3) args in simp)
  have two: "read_field ?s1 limit = (Some key, ?s2)"
    by (rule read_field_written [where r = "?tail @ LF # r"]) (use assms args in auto)
  have three: "read_arguments limit n 1 (length rest) [verb, key] ?s2 =
      Inr ([verb, key] @ rest, skip (length ?tail) ?s2)"
    by (rule read_arguments_written [where r = "LF # r"]) (use assms args in auto)
  have four: "get_char (skip (length ?tail) ?s2) = (Some LF, skip 1 (skip (length ?tail) ?s2))"
    by (rule get_char_Cons [where r = r]) (use assms(3) args in simp)
  show ?thesis
    using known_verb_word [OF count(2)] count
    by (simp add: replay_record_def one two three four args del: skip_skip One_nat_def) (simp add: add.commute add.left_commute)
qed

lemma replay_deadline_written:
  assumes "field_ok key" "fits_llong deadline"
    and "unread s = SPACE # field_bytes key @ SPACE # to_string deadline @ LF # r"
    and "limit = int (tellg s + length (unread s))"
  shows "replay_record env limit n ''EXPIRE'' s loaded =
    Inr (replay_deadline env key deadline loaded,
      skip (length (field_bytes key) + length (to_string deadline) + 3) s)"
proof -
  let ?s1 = "skip 1 s" and ?s2 = "skip (length (field_bytes key)) (skip 1 s)"
  let ?s3 = "skip 1 ?s2"
  let ?s4 = "skip (length (to_string deadline)) ?s3"
  have one: "get_char s = (Some SPACE, ?s1)"
    by (rule get_char_Cons) (use assms(3) in simp)
  have two: "read_field ?s1 limit = (Some key, ?s2)"
    by (rule read_field_written [where r = "SPACE # to_string deadline @ LF # r"]) (use assms in auto)
  have three: "get_char ?s2 = (Some SPACE, ?s3)"
    by (rule get_char_Cons [where r = "to_string deadline @ LF # r"]) (use assms(3) in simp)
  have four: "read_number ?s3 = (Some deadline, ?s4)"
    by (rule read_number_written [where c = LF and r = r]) (use assms in \<open>auto simp: is_digit_def\<close>)
  have five: "get_char ?s4 = (Some LF, skip 1 ?s4)"
    by (rule get_char_Cons [where r = r]) (use assms(3) in simp)
  show ?thesis
    by (simp add: replay_record_def one two three four five del: skip_skip One_nat_def)
      (simp add: eval_nat_numeral add.commute add.left_commute)
qed

text \<open>One turn of the loop on the bytes of a record.\<close>

lemma replay_record_written:
  assumes "record_shape_ok rec" "record_fits rec" "unread s = record_bytes rec @ r"
    and "limit = int (tellg s + length (unread s))"
  obtains verb s1 where "read_word s = (Some verb, s1)"
    "\<And>env n loaded. replay_record env limit n verb s1 loaded =
       Inr (redo env rec loaded, skip (length (record_bytes rec)) s)"
proof (cases rec)
  case (Command verb args)
  let ?fields = "concat (map (\<lambda>a. SPACE # field_bytes a) args)"
  have "0 \<le> arguments_for verb" using assms(1) Command by simp
  note verb = known_verb_word [OF this]
  obtain a as where "args = a # as" using assms(1) Command by (cases args) auto
  then have "unread s = verb @ SPACE # (field_bytes a @ concat (map (\<lambda>a. SPACE # field_bytes a) as)) @ LF # r"
    using assms(3) Command by simp
  then have word: "read_word s = (Some verb, skip (length verb) s)"
    using verb by (intro read_word_written [where c = SPACE]) simp_all
  have "replay_record env limit n verb (skip (length verb) s) loaded =
      Inr (run_words env (verb # args) loaded, skip (length ?fields + 1) (skip (length verb) s))" for env n loaded
    by (rule replay_command_written [where r = r]) (use assms Command in auto)
  then show thesis by (intro that [OF word]) (simp add: Command ac_simps)
next
  case (Deadline key deadline)
  have word: "read_word s = (Some ''EXPIRE'', skip 6 s)"
    using read_word_written [of "''EXPIRE''" s SPACE "field_bytes key @ SPACE # to_string deadline @ LF # r"]
      assms(3) Deadline by (simp add: is_space_def)
  have "replay_record env limit n ''EXPIRE'' (skip 6 s) loaded =
      Inr (replay_deadline env key deadline loaded,
        skip (length (field_bytes key) + length (to_string deadline) + 3) (skip 6 s))" for env n loaded
    by (rule replay_deadline_written [where r = r]) (use assms Deadline in auto)
  then show thesis
    by (intro that [OF word]) (simp add: Deadline ac_simps, simp add: eval_nat_numeral)
qed

lemma replay_loop_record:
  assumes "record_shape_ok rec" "record_fits rec" "unread s = record_bytes rec @ r"
    and "limit = int (tellg s + length (unread s))"
  shows "replay_loop env limit n s loaded =
    replay_loop env limit (n + 1) (skip (length (record_bytes rec)) s) (redo (env (n + 1)) rec loaded)"
  by (rule replay_record_written [OF assms]) (subst replay_loop.simps, simp add: Let_def)

lemma replay_loop_records:
  "list_all record_shape_ok recs \<Longrightarrow> list_all record_fits recs \<Longrightarrow>
   unread s = concat (map record_bytes recs) @ r \<Longrightarrow> limit = int (tellg s + length (unread s)) \<Longrightarrow>
   replay_loop env limit n s loaded =
     replay_loop env limit (n + int (length recs)) (skip (length (concat (map record_bytes recs))) s)
       (redo_all env n recs loaded)"
proof (induction recs arbitrary: n s loaded)
  case (Cons rec recs)
  have "replay_loop env limit n s loaded =
      replay_loop env limit (n + 1) (skip (length (record_bytes rec)) s) (redo (env (n + 1)) rec loaded)"
    by (rule replay_loop_record [where r = "concat (map record_bytes recs) @ r"]) (use Cons.prems in auto)
  also have "\<dots> = replay_loop env limit (n + 1 + int (length recs))
      (skip (length (concat (map record_bytes recs))) (skip (length (record_bytes rec)) s))
      (redo_all env (n + 1) recs (redo (env (n + 1)) rec loaded))"
    by (rule Cons.IH) (use Cons.prems in auto)
  finally show ?case by (simp add: ac_simps)
qed simp

lemma replay_log_records:
  assumes "list_all record_shape_ok recs" "list_all record_fits recs"
  shows "replay_log env path (Contents (concat (map record_bytes recs))) store error =
    (True, redo_all env 0 recs empty_store, error)"
proof -
  let ?bytes = "concat (map record_bytes recs)"
  have "replay_loop env (int (length ?bytes)) 0 \<lparr>tellg = 0, unread = ?bytes\<rparr> empty_store =
      replay_loop env (int (length ?bytes)) (0 + int (length recs))
        (skip (length ?bytes) \<lparr>tellg = 0, unread = ?bytes\<rparr>) (redo_all env 0 recs empty_store)"
    by (rule replay_loop_records [where r = "[]"]) (use assms in simp_all)
  also have "\<dots> = Inr (redo_all env 0 recs empty_store)"
    by (subst replay_loop.simps) (simp add: skip_def read_word_def skip_spaces_def)
  finally show ?thesis by (simp add: replay_log_def)
qed

subsection \<open>More input\<close>

text \<open>
  A reader that succeeds, and has not run into the end of the input, does the same on a longer
  input. So a record cannot be read from a part of its bytes.
\<close>

definition extend :: "ifstream \<Rightarrow> string \<Rightarrow> ifstream" where
  "extend s x = \<lparr>tellg = tellg s, unread = unread s @ x\<rparr>"

lemma extend_fields [simp]: "tellg (extend s x) = tellg s" "unread (extend s x) = unread s @ x"
  by (simp_all add: extend_def)

lemma skip_extend: "n \<le> length (unread s) \<Longrightarrow> skip n (extend s x) = extend (skip n s) x"
  by (simp add: skip_def extend_def)

lemma get_char_extend: "get_char s = (Some c, s') \<Longrightarrow> get_char (extend s x) = (Some c, extend s' x)"
  by (cases "unread s") (auto simp: get_char_def skip_extend)

lemma takeWhile_extend: "length (takeWhile P xs) < length xs \<Longrightarrow> takeWhile P (xs @ ys) = takeWhile P xs"
  by (induction xs) auto

lemma skip_spaces_extend: "unread (skip_spaces s) \<noteq> [] \<Longrightarrow> skip_spaces (extend s x) = extend (skip_spaces s) x"
  by (auto simp: skip_spaces_def takeWhile_extend skip_extend length_takeWhile_le)

lemma read_word_extend:
  assumes "read_word s = (Some w, s')" "unread s' \<noteq> []"
  shows "read_word (extend s x) = (Some w, extend s' x)"
proof -
  let ?s = "skip_spaces s" and ?P = "\<lambda>c. \<not> is_space c"
  have w: "w = takeWhile ?P (unread ?s)" "w \<noteq> []" "s' = skip (length w) ?s"
    using assms(1) by (auto simp: read_word_def Let_def split: if_splits)
  then have "unread ?s \<noteq> []" "length w < length (unread ?s)" using assms(2) by auto
  then show ?thesis
    using w by (simp add: read_word_def Let_def skip_spaces_extend takeWhile_extend skip_extend)
qed

lemma read_number_extend:
  assumes "read_number s = (Some n, s')" "unread s' \<noteq> []"
  shows "read_number (extend s x) = (Some n, extend s' x)"
proof -
  let ?s = "skip_spaces s"
  let ?signed = "unread ?s \<noteq> [] \<and> (hd (unread ?s) = CHR ''-'' \<or> hd (unread ?s) = CHR ''+'')"
  let ?t = "if ?signed then skip 1 ?s else ?s"
  have s': "s' = skip (length (takeWhile is_digit (unread ?t))) ?t"
    using assms(1) by (auto simp: read_number_def Let_def split: if_splits)
  then have more: "length (takeWhile is_digit (unread ?t)) < length (unread ?t)" using assms(2) by simp
  then have nonempty: "unread ?s \<noteq> []" by (auto split: if_splits)
  then have "(if ?signed then skip 1 (extend ?s x) else extend ?s x) = extend ?t x"
    by (cases "unread ?s") (auto simp: skip_extend)
  then show ?thesis
    using assms(1) s' more nonempty
    by (simp add: read_number_def Let_def skip_spaces_extend takeWhile_extend skip_extend
        split: if_splits)
qed

lemma read_field_extend:
  assumes "read_field s limit = (Some w, s')"
  shows "read_field (extend s x) (limit + int (length x)) = (Some w, extend s' x)"
proof -
  obtain len s1 where number: "read_number s = (Some len, s1)"
    using assms by (auto simp: read_field_def split: prod.splits option.splits)
  obtain s2 where space: "get_char s1 = (Some SPACE, s2)"
    using assms number by (auto simp: read_field_def split: prod.splits if_splits)
  have "unread s1 \<noteq> []" using space by (auto simp: get_char_def)
  note facts = read_number_extend [OF number this, of x] get_char_extend [OF space, of x]
  show ?thesis
    using assms number space facts
    by (auto simp: read_field_def Let_def skip_extend split: if_splits)
qed

lemma read_arguments_extend:
  "read_arguments limit n i left words s = Inr (words', s') \<Longrightarrow>
   read_arguments (limit + int (length x)) n i left words (extend s x) = Inr (words', extend s' x)"
proof (induction left arbitrary: i words s)
  case (Suc left)
  obtain s1 where space: "get_char s = (Some SPACE, s1)"
    using Suc.prems by (auto split: prod.splits if_splits)
  obtain w s2 where field: "read_field s1 limit = (Some w, s2)"
    using Suc.prems space by (auto split: prod.splits option.splits)
  show ?case
    using Suc space field get_char_extend [OF space, of x] read_field_extend [OF field, of x] by simp
qed simp

lemma replay_record_extend:
  assumes "replay_record env limit n verb s loaded = Inr (loaded', s')"
  shows "replay_record env (limit + int (length x)) n verb (extend s x) loaded = Inr (loaded', extend s' x)"
proof -
  obtain s1 where space: "get_char s = (Some SPACE, s1)"
    using assms by (auto simp: replay_record_def split: prod.splits if_splits)
  obtain key s2 where field: "read_field s1 limit = (Some key, s2)"
    using assms space by (auto simp: replay_record_def split: prod.splits option.splits)
  note start = get_char_extend [OF space, of x] read_field_extend [OF field, of x]
  show ?thesis
  proof (cases "verb = ''EXPIRE''")
    case True
    obtain s3 where sp: "get_char s2 = (Some SPACE, s3)"
      using assms space field True by (auto simp: replay_record_def split: prod.splits if_splits)
    obtain d s4 where num: "read_number s3 = (Some d, s4)"
      using assms space field True sp by (auto simp: replay_record_def split: prod.splits option.splits)
    obtain s5 where lf: "get_char s4 = (Some LF, s5)"
      using assms space field True sp num by (auto simp: replay_record_def split: prod.splits if_splits)
    have "unread s4 \<noteq> []" using lf by (auto simp: get_char_def)
    with assms space field True sp num lf start show ?thesis
      using get_char_extend [OF sp, of x] read_number_extend [OF num, of x] get_char_extend [OF lf, of x]
      by (simp add: replay_record_def)
  next
    case False
    then have known: "\<not> arguments_for verb < 0"
      using assms space field by (auto simp: replay_record_def Let_def)
    obtain words s3 where args:
      "read_arguments limit n 1 (nat (arguments_for verb - 1)) [verb, key] s2 = Inr (words, s3)"
      using assms space field False known by (auto simp: replay_record_def Let_def split: sum.splits)
    obtain s4 where lf: "get_char s3 = (Some LF, s4)"
      using assms space field False known args
      by (auto simp: replay_record_def Let_def split: prod.splits if_splits)
    show ?thesis
      using assms space field False known args lf start
        read_arguments_extend [OF args, of x] get_char_extend [OF lf, of x]
      by (simp add: replay_record_def Let_def)
  qed
qed

text \<open>A record cut short is refused, by a message that names its number.\<close>

lemma replay_record_error:
  "replay_record env limit n verb s loaded = Inl e \<Longrightarrow> \<exists>detail. e = record_error n detail"
proof -
  have args: "\<exists>detail. e = record_error n detail"
    if "read_arguments limit n i left words s = Inl e" for i left words s
    using that
    by (induction left arbitrary: i words s) (auto split: prod.splits if_splits option.splits)
  show "replay_record env limit n verb s loaded = Inl e \<Longrightarrow> \<exists>detail. e = record_error n detail"
    by (auto simp: replay_record_def Let_def split: prod.splits if_splits option.splits sum.splits dest: args)
qed

lemma replay_loop_truncated:
  assumes "record_shape_ok rec" "record_fits rec" "record_bytes rec = p @ x" "p \<noteq> []" "x \<noteq> []"
    and "unread s = p" "limit = int (tellg s + length p)"
  shows "\<exists>detail. replay_loop env limit n s loaded = Inl (record_error (n + 1) detail)"
proof -
  have "unread (extend s x) = record_bytes rec @ []" using assms(3,6) by simp
  moreover have full: "limit + int (length x) = int (tellg (extend s x) + length (unread (extend s x)))"
    using assms(6,7) by simp
  ultimately obtain verb s1 where word: "read_word (extend s x) = (Some verb, s1)"
    and rec: "\<And>env n loaded. replay_record env (limit + int (length x)) n verb s1 loaded =
       Inr (redo env rec loaded, skip (length (record_bytes rec)) (extend s x))"
    using replay_record_written [OF assms(1,2)] by metis
  have end_: "unread (skip (length (record_bytes rec)) (extend s x)) = []"
    using assms(3,6) by simp
  obtain c cs where p: "p = c # cs" using assms(4) by (cases p) auto
  have "\<not> is_space c"
  proof (cases rec)
    case (Command v args)
    with assms(1) known_verb_word [of v] have "v \<noteq> []" "list_all (\<lambda>c. \<not> is_space c) v" by auto
    with assms(3) p Command show ?thesis by (cases v) auto
  next
    case (Deadline k d)
    with assms(3) p show ?thesis by (auto simp: is_space_def)
  qed
  then obtain w s2 where cut: "read_word s = (Some w, s2)"
    using p assms(6) by (simp add: read_word_def skip_spaces_def Let_def)
  have "\<exists>e. replay_record (env (n + 1)) limit (n + 1) w s2 loaded = Inl e"
  proof (rule ccontr)
    assume "\<nexists>e. replay_record (env (n + 1)) limit (n + 1) w s2 loaded = Inl e"
    then obtain l s3 where ok: "replay_record (env (n + 1)) limit (n + 1) w s2 loaded = Inr (l, s3)"
      by (metis sumE surj_pair)
    then have "unread s2 \<noteq> []" by (auto simp: replay_record_def get_char_def)
    with read_word_extend [OF cut this, of x] word have "s1 = extend s2 x" "verb = w" by simp_all
    with rec [of "env (n + 1)" "n + 1" loaded] replay_record_extend [OF ok, of x]
    have "extend s3 x = skip (length (record_bytes rec)) (extend s x)" by simp
    with end_ have "unread (extend s3 x) = []" by simp
    with assms(5) show False by simp
  qed
  then obtain e where "replay_record (env (n + 1)) limit (n + 1) w s2 loaded = Inl e" by blast
  with replay_record_error [OF this] cut show ?thesis
    by (subst replay_loop.simps) (auto simp: Let_def)
qed

end
