(* ===== verification/Recovery.thy ===== *)
theory Recovery
  imports Replay_Laws Keyspace_Laws
begin

text \<open>
  Recovery restores what was running: the log of a run, replayed, gives the store of the run.

  Replaying runs at another time than the commands did, so the stores agree in their values and
  in which keys have a deadline. That needs two things of time, which the findings show are
  needed: no key expired while the commands ran (\<open>undisturbed\<close>), and every logged deadline lies
  behind the end of the replay (\<open>in_time\<close>). The interpretation \<open>aof\<close> of \<open>journal\<close> holds
  the result for any run.
\<close>

subsection \<open>Entries of the same shape\<close>

definition shape :: "entry \<Rightarrow> (Value \<times> bool) option" where
  "shape e = map_option (\<lambda>(v, d). (v, d \<noteq> None)) e"

lemma shape_simps [simp]:
  "shape None = None"
  "shape (Some (v, d)) = Some (v, d \<noteq> None)"
  by (simp_all add: shape_def)

lemma shape_None_iff [simp]: "shape e = None \<longleftrightarrow> e = None"
  by (simp add: shape_def)

lemma shape_Some_iff: "shape e = Some (v, b) \<longleftrightarrow> (\<exists>d. e = Some (v, d) \<and> b = (d \<noteq> None))"
  by (auto simp: shape_def)

fun timeless :: "command \<Rightarrow> bool" where
  "timeless (Expire k n) = False"
| "timeless (Ttl k) = False"
| "timeless c = True"

lemma shape_contents: "shape e = shape e' \<Longrightarrow> contents get_if nothing e = contents get_if nothing e'"
  by (cases e; cases e') (auto simp: contents_def)

lemma shape_with_value: "shape e = shape e' \<Longrightarrow> shape (with_value v e) = shape (with_value v e')"
  by (cases e; cases e') (auto simp: with_value_def deadline_of_def)

text \<open>A command that does not look at deadlines does the same to entries of the same shape.\<close>

lemma spec_shape:
  assumes "timeless c" "shape e = shape e'"
    and "spec env c e = (r, e2, recs)" "spec env' c e' = (r', e2', recs')"
  shows "shape e2 = shape e2' \<and> recs = recs'"
proof -
  have none: "e = None \<longleftrightarrow> e' = None" using assms(2) by (metis shape_None_iff)
  show ?thesis
    using assms shape_contents [OF assms(2), of get_list "[]"] shape_contents [OF assms(2), of get_hash fmempty]
      shape_contents [OF assms(2), of get_set "{||}"] none shape_with_value [OF assms(2)]
    by (cases c) (auto split: option.splits if_splits prod.splits)
qed

subsection \<open>The command a record stands for\<close>

text \<open>\<open>EXPIRE\<close> with no time left is logged as the deletion it is.\<close>

fun logged_as :: "command \<Rightarrow> command" where
  "logged_as (Expire k n) = Del k"
| "logged_as c = c"

lemma upper_verbs [simp]:
  "to_upper ''SET'' = ''SET''" "to_upper ''DEL'' = ''DEL''" "to_upper ''LPUSH'' = ''LPUSH''"
  "to_upper ''RPUSH'' = ''RPUSH''" "to_upper ''LPOP'' = ''LPOP''" "to_upper ''RPOP'' = ''RPOP''"
  "to_upper ''HSET'' = ''HSET''" "to_upper ''HDEL'' = ''HDEL''" "to_upper ''SADD'' = ''SADD''"
  "to_upper ''SREM'' = ''SREM''" "to_upper ''EXPIRE'' = ''EXPIRE''"
  by code_simp+

lemma decode_hdel: "decode [''HDEL'', k, f] = Inr (Hdel k f)"
  by (simp add: decode_def arity_of_def build_verbs)

lemma verb_shapes [simp]:
  "arguments_for ''SET'' = 2" "arguments_for ''DEL'' = 1" "arguments_for ''LPUSH'' = 2"
  "arguments_for ''RPUSH'' = 2" "arguments_for ''LPOP'' = 1" "arguments_for ''RPOP'' = 1"
  "arguments_for ''HSET'' = 3" "arguments_for ''HDEL'' = 2" "arguments_for ''SADD'' = 2"
  "arguments_for ''SREM'' = 2"
  by code_simp+

lemma side_verbs [simp]:
  "arguments_for (push_verb d) = 2" "arguments_for (pop_verb d) = 1"
  "decode [push_verb d, k, x] = Inr (Push d k x)" "decode [pop_verb d, k] = Inr (Pop d k)"
  by (cases d; simp add: decode_verbs)+

lemma spec_record:
  assumes "spec env c e = (r, e2, recs)"
  obtains (silent) "recs = []" "e2 = e"
  | (command) verb args where "recs = [Command verb args]" "decode (verb # args) = Inr (logged_as c)"
      "record_shape_ok (Command verb args)" "timeless (logged_as c)"
      "\<exists>r'. spec env (logged_as c) e = (r', e2, recs)"
  | (deadline) k n v d where "c = Expire k n" "recs = [Deadline k (unix_time env + n)]"
      "e = Some (v, d)" "e2 = Some (v, Some (clock1 env + n * ticks_per_second))" "0 < n"
proof (cases recs)
  case Nil
  with assms spec_silent have "e2 = e" by blast
  with Nil show thesis by (rule silent)
next
  case (Cons rec recs')
  with spec_one_record [OF assms] have recs: "recs = [rec]" by simp
  show thesis
  proof (cases rec)
    case (Command verb args)
    show thesis
      by (rule command [of verb args])
        (use assms recs Command in \<open>cases c;
          auto simp: decode_verbs decode_hdel flag_def split: option.splits if_splits prod.splits\<close>)+
  next
    case (Deadline k t)
    with assms recs show thesis
      by (cases c) (auto intro: deadline split: option.splits if_splits prod.splits)
  qed
qed

lemma spec_record_shapes: "spec env c e = (r, e2, recs) \<Longrightarrow> list_all record_shape_ok recs"
  by (erule spec_record) auto

subsection \<open>Steps in which no key expires\<close>

definition undisturbed :: "Env \<Rightarrow> Store \<Rightarrow> bool" where
  "undisturbed env s \<longleftrightarrow>
     clock1 env \<le> clock2 env \<and> fmpred (\<lambda>k deadline. clock2 env < deadline) (expirations s)"

lemma undisturbed_live:
  assumes "undisturbed env s" "t \<le> clock2 env"
  shows "live t (entry_of s k) = entry_of s k"
proof (cases "fmlookup (vals s) k")
  case (Some v)
  have "t < d" if "fmlookup (expirations s) k = Some d" for d
    using assms that unfolding undisturbed_def fmpred_iff by (meson le_less_trans)
  with Some show ?thesis by (auto simp: entry_of_def live_def split: option.splits)
qed (simp add: entry_of_def)

lemma undisturbed_step:
  assumes "no_orphans s" "undisturbed env s" "well_formed_request req" "decode (words_of req) = Inr c"
    and "spec env c (entry_of s (key_of c)) = (r, e, recs)"
    and "execute_command env req s log = (r', s', log')"
  shows "no_orphans s' \<and> entry_of s' = (entry_of s)(key_of c := e) \<and> log' = fold add_record recs log"
proof -
  have "command_time env c \<le> clock2 env"
    using command_time_bounds [of env c] assms(2) by (simp add: undisturbed_def)
  note live = undisturbed_live [OF assms(2) this]
  have "implements (r', s', log') env c s log"
    using execute_decode [OF assms(3,1), where env = env and log = log] assms(4,6) by simp
  then show ?thesis
    using assms(5) by (auto simp: implements_def live)
qed

lemma as_request_eq: "as_request words = request words"
  by (simp add: as_request_def request_def)

lemma run_words_step:
  assumes "no_orphans s" "undisturbed env s" "decode words = Inr c" "words \<noteq> []"
    and "spec env c (entry_of s (key_of c)) = (r, e, recs)"
  shows "no_orphans (run_words env words s) \<and> entry_of (run_words env words s) = (entry_of s)(key_of c := e)"
proof -
  obtain r' s' log' where run: "execute_command env (request words) s None = (r', s', log')"
    by (metis prod_cases3)
  then show ?thesis
    using undisturbed_step [OF assms(1,2) _ _ assms(5) run] assms(3,4)
    by (simp add: run_words_def as_request_eq)
qed

subsection \<open>The journal\<close>

text \<open>A step with the records it logs, and the conditions on the environments of a replay, which ends before the
  \<open>horizon\<close> on its steady clock: read at any record of the replay, a logged deadline lies in the future, not
  before the horizon, and fits the clock. A log without deadlines puts no bound on the horizon.\<close>

definition recorded :: "Env \<Rightarrow> RespValue \<Rightarrow> Store \<times> log \<Rightarrow> (Store \<times> log) \<times> log_record list" where
  "recorded env req state =
     (snd (execute_command env req (fst state) (snd state)),
      snd (snd (spec_step env req (entry_of (fst state)))))"

definition replay_ready :: "int \<Rightarrow> Env \<Rightarrow> bool" where
  "replay_ready horizon env \<longleftrightarrow>
     env_ok env \<and> clock1 env \<le> clock2 env \<and> clock2 env < horizon"

fun in_time :: "(int \<Rightarrow> Env) \<Rightarrow> int \<Rightarrow> log_record \<Rightarrow> bool" where
  "in_time renv horizon (Command verb args) = True"
| "in_time renv horizon (Deadline key deadline) =
     (\<forall>n. unix_time (renv n) < deadline \<and> deadline - unix_time (renv n) \<le> max_seconds (clock1 (renv n)) \<and>
        horizon \<le> clock1 (renv n) + (deadline - unix_time (renv n)) * ticks_per_second)"

text \<open>Twin stores have the same values and deadlines for the same keys, and each deadline of the second one
  lies behind the horizon and is close to that of the first one, in the sense given.\<close>

definition twin ::
  "(int \<Rightarrow> int \<Rightarrow> bool) \<Rightarrow> (int \<Rightarrow> Env) \<Rightarrow> int \<Rightarrow> Store \<times> log \<Rightarrow> Store \<Rightarrow> bool"
where
  "twin close renv horizon state l \<longleftrightarrow>
     (\<forall>n. replay_ready horizon (renv n)) \<and> no_orphans (fst state) \<and> no_orphans l \<and>
     (\<forall>k. shape (entry_of (fst state) k) = shape (entry_of l k)) \<and>
     (\<forall>k v d. entry_of l k = Some (v, Some d) \<longrightarrow> horizon \<le> d) \<and>
     (\<forall>k v w d d'. entry_of (fst state) k = Some (v, Some d) \<longrightarrow> entry_of l k = Some (w, Some d') \<longrightarrow> close d d')"

text \<open>A deadline set by a command and the one its record sets at a replay are close.\<close>

definition tracks :: "(int \<Rightarrow> int \<Rightarrow> bool) \<Rightarrow> (int \<Rightarrow> Env) \<Rightarrow> Env \<Rightarrow> bool" where
  "tracks close renv env \<longleftrightarrow>
     (\<forall>n m. close (clock1 env + m * ticks_per_second)
        (clock1 (renv n) + (unix_time env + m - unix_time (renv n)) * ticks_per_second))"

lemma twin_undisturbed:
  assumes "twin close renv horizon state l"
  shows "undisturbed (renv n) l"
proof -
  have ready: "replay_ready horizon (renv n)" using assms by (simp add: twin_def)
  have "clock2 (renv n) < d" if d: "fmlookup (expirations l) k = Some d" for k d
  proof -
    obtain v where "fmlookup (vals l) k = Some v"
      using assms d no_orphansD unfolding twin_def by (metis not_None_eq)
    with d have "entry_of l k = Some (v, Some d)" by (simp add: entry_of_def)
    then have "horizon \<le> d" using assms by (simp add: twin_def)
    with ready show ?thesis by (simp add: replay_ready_def)
  qed
  with ready show ?thesis by (simp add: undisturbed_def replay_ready_def fmpred_iff)
qed

lemma twin_update:
  assumes "twin close renv horizon state l" "no_orphans s'" "no_orphans l'"
    and "entry_of s' = (entry_of (fst state))(k := e)" "entry_of l' = (entry_of l)(k := e')"
    and "shape e = shape e'" "\<And>v d. e' = Some (v, Some d) \<Longrightarrow> horizon \<le> d"
    and "\<And>v w d d'. e = Some (v, Some d) \<Longrightarrow> e' = Some (w, Some d') \<Longrightarrow> close d d'"
  shows "twin close renv horizon (s', log') l'"
  using assms unfolding twin_def by simp

text \<open>What a timeless command leaves of a deadline is the deadline that was there.\<close>

lemma spec_timeless_deadline:
  assumes "timeless c" "spec env c e = (r, Some (v, Some d), recs)"
  shows "\<exists>w. e = Some (w, Some d)"
  using assms
  by (cases c) (auto simp: with_value_def deadline_of_def bind_eq_Some_conv split: option.splits if_splits prod.splits)

lemma to_string_remaining:
  assumes "replay_ready horizon env" "0 < n" "n \<le> max_seconds (clock1 env)"
  shows "to_integer (to_string n) = Some n"
proof -
  have "0 \<le> clock1 env" "clock1 env + n * ticks_per_second \<le> LLONG_MAX"
    using assms max_seconds_bound by (simp_all add: replay_ready_def env_ok_def)
  then have "fits_llong n"
    using assms(2) by (simp add: ticks_per_second_def fits_llong_def LLONG_MIN_def)
  then show ?thesis by simp
qed

lemma redo_record:
  assumes "twin close renv horizon (s, log) l" "undisturbed env s" "tracks close renv env"
    and "spec env c (entry_of s (key_of c)) = (r, e, recs)" "list_all (in_time renv horizon) recs"
    and "no_orphans s'" "entry_of s' = (entry_of s)(key_of c := e)"
  shows "twin close renv horizon (s', log') (redo_from (\<lambda>n. redo (renv n)) n recs l)"
  using assms(4)
proof (cases rule: spec_record)
  case silent
  then have "s' = s"
    using assms(1,6,7) by (intro store_eqI) (simp_all add: twin_def)
  with silent assms(1) show ?thesis by (simp add: twin_def)
next
  case (command verb args)
  let ?env = "renv (n + 1)" and ?c = "logged_as c"
  have orphans: "no_orphans l" using assms(1) by (simp add: twin_def)
  have key: "key_of ?c = key_of c" by (cases c) auto
  have same: "shape (entry_of s (key_of c)) = shape (entry_of l (key_of c))"
    using assms(1) by (simp add: twin_def)
  obtain r0 where live: "spec env ?c (entry_of s (key_of c)) = (r0, e, recs)" using command(5) by blast
  obtain r1 e1 recs1 where sp: "spec ?env ?c (entry_of l (key_of c)) = (r1, e1, recs1)" by (metis prod_cases3)
  have "no_orphans (run_words ?env (verb # args) l) \<and>
      entry_of (run_words ?env (verb # args) l) = (entry_of l)(key_of c := e1)"
    using run_words_step [OF orphans twin_undisturbed [OF assms(1)] command(2), of "n + 1"] sp key by simp
  moreover have "shape e = shape e1" using spec_shape [OF command(4) same live sp] by blast
  moreover have "horizon \<le> d" if e1: "e1 = Some (v, Some d)" for v d
  proof -
    obtain w where "entry_of l (key_of c) = Some (w, Some d)"
      using spec_timeless_deadline [OF command(4) sp [unfolded e1]] by blast
    with assms(1) show ?thesis by (simp add: twin_def)
  qed
  moreover have close: "close d d'" if e: "e = Some (v, Some d)" and e1: "e1 = Some (w, Some d')" for v w d d'
  proof -
    obtain v' where "entry_of s (key_of c) = Some (v', Some d)"
      using spec_timeless_deadline [OF command(4) live [unfolded e]] by blast
    moreover obtain w' where "entry_of l (key_of c) = Some (w', Some d')"
      using spec_timeless_deadline [OF command(4) sp [unfolded e1]] by blast
    ultimately show ?thesis using assms(1) by (simp add: twin_def)
  qed
  ultimately show ?thesis
    using twin_update [OF assms(1,6)] assms(7) close by (simp add: command(1))
next
  case (deadline k m v d)
  let ?env = "renv (n + 1)"
  let ?left = "unix_time env + m - unix_time ?env"
  have ready: "replay_ready horizon ?env" and orphans: "no_orphans l" using assms(1) by (simp_all add: twin_def)
  have left: "0 < ?left" "?left \<le> max_seconds (clock1 ?env)"
    using assms(5) deadline(2) by (simp_all add: algebra_simps)
  note number = to_string_remaining [OF ready left]
  have "entry_of s k = Some (v, d)" using deadline(1,3) by simp
  moreover have "shape (entry_of s k) = shape (entry_of l k)" using assms(1) by (simp add: twin_def)
  ultimately have "shape (entry_of l k) = Some (v, d \<noteq> None)" by simp
  then obtain d' where here: "entry_of l k = Some (v, d')" by (auto simp: shape_Some_iff)
  let ?d = "clock1 ?env + ?left * ticks_per_second"
  have sp: "spec ?env (Expire k ?left) (entry_of l (key_of (Expire k ?left))) =
      (flag True, Some (v, Some ?d), [Deadline k (unix_time ?env + ?left)])"
    using left here by simp
  have dec: "decode [''EXPIRE'', k, to_string ?left] = Inr (Expire k ?left)"
    by (rule decode_verbs(3) [OF _ number]) simp
  have "no_orphans (run_words ?env [''EXPIRE'', k, to_string ?left] l) \<and>
      entry_of (run_words ?env [''EXPIRE'', k, to_string ?left] l) = (entry_of l)(k := Some (v, Some ?d))"
    using run_words_step [OF orphans twin_undisturbed [OF assms(1)] dec _ sp] by simp
  then have "no_orphans (replay_deadline ?env k (unix_time env + m) l) \<and>
      entry_of (replay_deadline ?env k (unix_time env + m) l) = (entry_of l)(k := Some (v, Some ?d))"
    using left by (simp add: replay_deadline_def)
  moreover have "horizon \<le> ?d"
    using assms(5) deadline(2) by simp
  moreover have close: "close (clock1 env + m * ticks_per_second) ?d"
    using assms(3) by (simp add: tracks_def)
  ultimately show ?thesis
    using twin_update [OF assms(1,6), of _ k e "Some (v, Some ?d)"] assms(7) deadline close by simp
qed

lemma recorded_redo:
  assumes "twin close renv horizon state l" "undisturbed env (fst state) \<and> tracks close renv env"
    and "recorded env req state = (state', recs)" "list_all (in_time renv horizon) recs"
  shows "twin close renv horizon state' (redo_from (\<lambda>n. redo (renv n)) n recs l)"
proof -
  obtain s log where state: "state = (s, log)" by (cases state)
  obtain r s' log' where run: "execute_command env req s log = (r, s', log')" by (metis prod_cases3)
  obtain r0 K recs0 where sp: "spec_step env req (entry_of s) = (r0, K, recs0)" by (metis prod_cases3)
  have out: "state' = (s', log')" "recs = recs0"
    using assms(3) by (simp_all add: recorded_def state run sp)
  have orphans: "no_orphans s" using assms(1) by (simp add: twin_def state)
  show ?thesis
  proof (cases "well_formed_request req")
    case False
    then have "s' = s" "recs0 = []" using run sp by (simp_all add: execute_malformed spec_step_def)
    with assms(1) out show ?thesis by (simp add: state twin_def)
  next
    case True
    note decoded = execute_decode [OF True orphans, where env = env and log = log]
    show ?thesis
    proof (cases "decode (words_of req)")
      case (Inl err)
      then have "s' = s" "recs0 = []" using True decoded run sp by (simp_all add: spec_step_def)
      with assms(1) out show ?thesis by (simp add: state twin_def)
    next
      case (Inr c)
      have "live (command_time env c) (entry_of s (key_of c)) = entry_of s (key_of c)"
        using undisturbed_live [OF conjunct1 [OF assms(2)]] command_time_bounds [of env c] assms(2)
        by (simp add: state undisturbed_def)
      then obtain e where e: "spec env c (entry_of s (key_of c)) = (r0, e, recs0)"
        using sp True Inr by (auto simp: spec_step_def split: prod.splits)
      have "no_orphans s' \<and> entry_of s' = (entry_of s)(key_of c := e)"
        using undisturbed_step [OF orphans _ True Inr e run] assms(2) by (simp add: state)
      then show ?thesis
        using redo_record [OF assms(1) [unfolded state] _ _ e] assms(2,4) out by (simp add: state)
    qed
  qed
qed

interpretation aof: journal recorded "\<lambda>n. redo (renv n)" "twin close renv horizon"
    "\<lambda>env state. undisturbed env (fst state) \<and> tracks close renv env" "in_time renv horizon" for close renv horizon
  by unfold_locales (rule recorded_redo)

subsection \<open>Clocks\<close>

text \<open>The wall clock, read in whole seconds, shows within a second what the steady clock shows when it is
  moved by \<open>offset\<close>, which is fixed while a process runs and the system is up.\<close>

definition in_step :: "int \<Rightarrow> Env \<Rightarrow> bool" where
  "in_step offset env \<longleftrightarrow> \<bar>unix_time env * ticks_per_second - (clock1 env + offset)\<bar> < ticks_per_second"

definition within_seconds :: "int \<Rightarrow> int \<Rightarrow> int \<Rightarrow> int \<Rightarrow> int \<Rightarrow> bool" where
  "within_seconds n offset offset' d d' \<longleftrightarrow> \<bar>(d' + offset') - (d + offset)\<bar> < n * ticks_per_second"

lemma in_step_tracks:
  assumes "in_step offset env" "\<And>n. in_step offset' (renv n)"
  shows "tracks (within_seconds 2 offset offset') renv env"
  unfolding tracks_def within_seconds_def
proof (intro allI)
  fix n m
  have "\<bar>unix_time env * ticks_per_second - (clock1 env + offset)\<bar> < ticks_per_second"
    "\<bar>unix_time (renv n) * ticks_per_second - (clock1 (renv n) + offset')\<bar> < ticks_per_second"
    using assms unfolding in_step_def by blast+
  then show "\<bar>clock1 (renv n) + (unix_time env + m - unix_time (renv n)) * ticks_per_second + offset' -
      (clock1 env + m * ticks_per_second + offset)\<bar> < 2 * ticks_per_second"
    unfolding left_diff_distrib distrib_right by linarith
qed

subsection \<open>The log of a run\<close>

lemma recorded_run:
  "run execute_command events s log = (rs, s', log') \<Longrightarrow>
   fst (records recorded events (s, log)) = (s', log')"
proof (induction events arbitrary: s log rs)
  case Nil
  then show ?case by simp
next
  case (Cons event events)
  obtain env req where event: "event = (env, req)" by (cases event)
  obtain r s1 log1 where one: "execute_command env req s log = (r, s1, log1)" by (metis prod_cases3)
  obtain rs1 where "run execute_command events s1 log1 = (rs1, s', log')"
    using Cons.prems by (auto simp: event one split: prod.splits)
  from Cons.IH [OF this] obtain recs where "records recorded events (s1, log1) = ((s', log'), recs)"
    by (cases "records recorded events (s1, log1)") simp
  moreover have "recorded env req (s, log) = ((s1, log1), snd (snd (spec_step env req (entry_of s))))"
    by (simp add: recorded_def one)
  ultimately show ?case by (simp add: event)
qed

text \<open>The log of an undisturbed run is the bytes of its records, in order.\<close>

lemma recorded_log:
  "no_orphans s \<Longrightarrow> along (\<lambda>env state. undisturbed env (fst state)) recorded events (s, log) \<Longrightarrow>
   records recorded events (s, log) = ((s', log'), recs) \<Longrightarrow>
   log' = fold add_record recs log \<and> list_all record_shape_ok recs \<and> no_orphans s'"
proof (induction events arbitrary: s log recs)
  case Nil
  then show ?case by simp
next
  case (Cons event events)
  obtain env req where event: "event = (env, req)" by (cases event)
  obtain r s1 log1 where one: "execute_command env req s log = (r, s1, log1)" by (metis prod_cases3)
  obtain r1 K recs1 where sp: "spec_step env req (entry_of s) = (r1, K, recs1)" by (metis prod_cases3)
  have step: "recorded env req (s, log) = ((s1, log1), recs1)" by (simp add: recorded_def one sp)
  obtain recs2 where rest: "records recorded events (s1, log1) = ((s', log'), recs2)" "recs = recs1 @ recs2"
    using Cons.prems(3) by (auto simp: event step split: prod.splits)
  have "clock1 env \<le> clock2 env" using Cons.prems(2) by (simp add: event undisturbed_def)
  from keyspace.simulates [OF related_entries [OF Cons.prems(1)] order_refl this one sp]
  have "log1 = fold add_record recs1 log" "no_orphans s1" by (simp_all add: related_def)
  moreover have "list_all record_shape_ok recs1"
    using sp by (cases rule: spec_step_cases) (auto dest: spec_record_shapes)
  ultimately show ?case
    using Cons.IH [OF _ _ rest(1)] Cons.prems(2) rest(2) by (simp add: event step)
qed

lemma fold_add_record: "fold add_record recs (Some written) = Some (written @ concat (map record_bytes recs))"
  by (induction recs arbitrary: written) (simp_all add: add_record_def)

lemma twin_empty: "(\<And>n. replay_ready horizon (renv n)) \<Longrightarrow> twin close renv horizon (empty_store, log) empty_store"
  by (simp add: twin_def entry_of_def empty_store_def no_orphans_def)

lemma twin_stores:
  assumes "twin close renv horizon (s, log) l"
  shows "vals l = vals s" and "fmdom (expirations l) = fmdom (expirations s)"
    and "fmlookup (expirations s) k = Some d \<Longrightarrow> fmlookup (expirations l) k = Some d' \<Longrightarrow> close d d'"
proof -
  have orphans: "no_orphans s" "no_orphans l" using assms by (simp_all add: twin_def)
  have same: "shape (entry_of s k) = shape (entry_of l k)" for k using assms by (simp add: twin_def)
  have "fmlookup (vals l) k = fmlookup (vals s) k \<and>
      (fmlookup (expirations l) k = None \<longleftrightarrow> fmlookup (expirations s) k = None)" for k
    using same [of k] no_orphansD [OF orphans(1), of k] no_orphansD [OF orphans(2), of k]
    by (cases "fmlookup (vals s) k"; cases "fmlookup (vals l) k";
        cases "fmlookup (expirations s) k"; cases "fmlookup (expirations l) k") (simp_all add: entry_of_def)
  then show "vals l = vals s" and "fmdom (expirations l) = fmdom (expirations s)"
    by (auto intro!: fmap_ext simp: fmlookup_dom_iff fset_eq_iff) (metis option.distinct(1) not_None_eq)+
  assume d: "fmlookup (expirations s) k = Some d" "fmlookup (expirations l) k = Some d'"
  then obtain v w where "fmlookup (vals s) k = Some v" "fmlookup (vals l) k = Some w"
    using no_orphansD [OF orphans(1), of k] no_orphansD [OF orphans(2), of k] by auto
  with d have "entry_of s k = Some (v, Some d)" "entry_of l k = Some (w, Some d')"
    by (simp_all add: entry_of_def)
  with assms show "close d d'" by (simp add: twin_def)
qed

lemma fmdom_none: "fmdom m = {||} \<Longrightarrow> m = fmempty"
  by (rule fmap_ext) (metis fempty_iff fmdom_notD fmempty_lookup)

subsection \<open>Recovery of a run\<close>

lemma recovered:
  assumes "run execute_command events empty_store (Some []) = (rs, s, Some bytes)"
    and "along (\<lambda>env state. undisturbed env (fst state)) recorded events (empty_store, Some [])"
    and "snd (records recorded events (empty_store, Some [])) = recs"
    and "list_all record_fits recs" "list_all (in_time renv horizon) recs" "\<forall>n. replay_ready horizon (renv n)"
    and "replay_log renv path (Contents bytes) store error = (accepted, l, error')"
  shows "accepted \<and> vals l = vals s \<and> fmdom (expirations l) = fmdom (expirations s) \<and>
    (expirations s = fmempty \<longrightarrow> l = s) \<and>
    ((\<forall>(env, req) \<in> set events. in_step offset env) \<and> (\<forall>n. in_step offset' (renv n)) \<longrightarrow>
     (\<forall>k d d'. fmlookup (expirations s) k = Some d \<and> fmlookup (expirations l) k = Some d' \<longrightarrow>
        within_seconds 2 offset offset' d d'))"
proof -
  have run: "records recorded events (empty_store, Some []) = ((s, Some bytes), recs)"
    using recorded_run [OF assms(1)] assms(3) by (metis prod.collapse)
  from recorded_log [OF no_orphans_empty assms(2) this]
  have bytes: "bytes = concat (map record_bytes recs)" and shapes: "list_all record_shape_ok recs"
    by (simp_all add: fold_add_record)
  have l: "accepted" "l = redo_all renv 0 recs empty_store"
    using assms(7) replay_log_records [OF shapes assms(4)] by (simp_all add: bytes)
  have restored: "twin close renv horizon (s, Some bytes) l" if "\<forall>(env, req) \<in> set events. tracks close renv env" for close
  proof -
    have "twin close renv horizon (empty_store, Some []) empty_store"
      using twin_empty assms(6) by blast
    from aof.redo_run [OF this along_conj [OF assms(2) that] run assms(5), of 0] show ?thesis by (simp add: l(2))
  qed
  note same = twin_stores [OF restored [of "\<lambda>d d'. True"]]
  have restored_values: "vals l = vals s" "fmdom (expirations l) = fmdom (expirations s)"
    using same(1,2) by (simp_all add: tracks_def)
  then have "expirations s = fmempty \<longrightarrow> l = s" by (auto dest!: fmdom_none)
  moreover have "within_seconds 2 offset offset' d d'"
    if clocks: "\<forall>(env, req) \<in> set events. in_step offset env" "\<forall>n. in_step offset' (renv n)"
      and d: "fmlookup (expirations s) k = Some d" "fmlookup (expirations l) k = Some d'" for k d d'
  proof -
    have "\<forall>(env, req) \<in> set events. tracks (within_seconds 2 offset offset') renv env"
      using clocks in_step_tracks by fast
    from twin_stores(3) [OF restored [OF this] d] show ?thesis .
  qed
  ultimately show ?thesis using restored_values l(1) by blast
qed

subsection \<open>The invariant of the store\<close>

lemma run_words_ok: "env_ok e \<Longrightarrow> store_ok loaded \<Longrightarrow> store_ok (run_words e words loaded)"
  unfolding run_words_def using execute_keeps by (metis prod.collapse)

lemma replay_record_ok:
  "replay_record e limit n verb s loaded = Inr (loaded', s') \<Longrightarrow> env_ok e \<Longrightarrow> store_ok loaded \<Longrightarrow>
   store_ok loaded'"
  by (auto simp: replay_record_def replay_deadline_def Let_def run_words_ok
      split: prod.splits option.splits if_splits sum.splits)

lemma replay_loop_ok:
  assumes "\<And>n. env_ok (env n)"
  shows "replay_loop env limit n s loaded = Inr l \<Longrightarrow> store_ok loaded \<Longrightarrow> store_ok l"
proof (induction "length (unread s)" arbitrary: n s loaded rule: less_induct)
  case less
  obtain w s1 where word: "read_word s = (w, s1)" by (cases "read_word s")
  show ?case
  proof (cases w)
    case None
    with less.prems word show ?thesis by (simp add: replay_loop.simps)
  next
    case (Some verb)
    then obtain loaded1 s2 where rec: "replay_record (env (n + 1)) limit (n + 1) verb s1 loaded = Inr (loaded1, s2)"
      and rest: "replay_loop env limit (n + 1) s2 loaded1 = Inr l"
      using less.prems(1) word by (subst (asm) replay_loop.simps) (auto simp: Let_def split: sum.splits)
    have "length (unread s2) < length (unread s)"
      using read_word_less [OF word [unfolded Some]] behind_length [OF replay_record_behind [OF rec]] by simp
    from less.hyps [OF this rest] replay_record_ok [OF rec] assms less.prems(2) show ?thesis by blast
  qed
qed

end
