(* ===== verification/Persistence_Properties.thy ===== *)
theory Persistence_Properties
  imports Recovery
begin

text \<open>
  The properties of the append-only log, and the cases in which recovery does not restore what
  was running.
\<close>

subsection \<open>The log as bytes\<close>

text \<open>C13. Replaying the bytes of any list of records, keys and values being any bytes, redoes exactly
  these records in order, and nothing is refused.\<close>

theorem replay_reads_records:
  assumes "list_all record_shape_ok recs" "list_all record_fits recs"
  shows "replay_log env path (Contents (concat (map record_bytes recs))) store error =
    (True, redo_all env 0 recs empty_store, error)"
  using assms by (rule replay_log_records)

theorem replay_reads_records_witness:
  "replay_log (\<lambda>n. env_at 5) ''log'' (Contents (''SET 1 k 3 a'' @ [LF] @ ''b'' @ [LF])) empty_store [] =
    (True, run_words (env_at 5) [''SET'', ''k'', ''a'' @ [LF] @ ''b''] empty_store, [])"
proof -
  have "list_all record_shape_ok [Command ''SET'' [''k'', ''a'' @ [LF] @ ''b'']]"
    by simp
  moreover have "list_all record_fits [Command ''SET'' [''k'', ''a'' @ [LF] @ ''b'']]"
    by (simp add: field_ok_def llong_defs)
  moreover have "concat (map record_bytes [Command ''SET'' [''k'', ''a'' @ [LF] @ ''b'']]) =
      ''SET 1 k 3 a'' @ [LF] @ ''b'' @ [LF]" by code_simp
  ultimately show ?thesis
    using replay_reads_records [of "[Command ''SET'' [''k'', ''a'' @ [LF] @ ''b'']]" "\<lambda>n. env_at 5" "''log''" empty_store "[]"]
    by simp
qed

text \<open>C12. A log that ends inside a record, as after a crash in the middle of a write, is refused: the
  message names the record that is cut short, and the store stays as it is.\<close>

theorem truncated_log_refused:
  assumes "list_all record_shape_ok (recs @ [rec])" "list_all record_fits (recs @ [rec])"
    and "0 < k" "k < length (record_bytes rec)"
  shows "\<exists>detail. replay_log env path (Contents (concat (map record_bytes recs) @ take k (record_bytes rec))) store error =
    (False, store, record_error (int (length recs) + 1) detail)"
proof -
  let ?p = "take k (record_bytes rec)" and ?x = "drop k (record_bytes rec)"
  let ?done = "concat (map record_bytes recs)"
  let ?s = "\<lparr>tellg = 0, unread = ?done @ ?p\<rparr>" and ?limit = "int (length (?done @ ?p))"
  have "replay_loop env ?limit 0 ?s empty_store =
      replay_loop env ?limit (0 + int (length recs)) (skip (length ?done) ?s) (redo_all env 0 recs empty_store)"
    by (rule replay_loop_records [where r = ?p]) (use assms(1,2) in simp_all)
  moreover have "\<exists>detail. replay_loop env ?limit (0 + int (length recs)) (skip (length ?done) ?s)
      (redo_all env 0 recs empty_store) = Inl (record_error (0 + int (length recs) + 1) detail)"
    by (rule replay_loop_truncated [where p = ?p and x = ?x]) (use assms in auto)
  ultimately show ?thesis by (auto simp: replay_log_def)
qed

theorem truncated_log_refused_witness:
  "\<exists>detail. replay_log (\<lambda>n. env_at 5) ''log'' (Contents (''DEL 1 a'' @ [LF] @ ''DEL 1 b'')) empty_store [] =
    (False, empty_store, record_error 2 detail)"
proof -
  let ?a = "Command ''DEL'' [''a'']" and ?b = "Command ''DEL'' [''b'']"
  have "list_all record_shape_ok ([?a] @ [?b])" by simp
  moreover have "list_all record_fits ([?a] @ [?b])" by (simp add: field_ok_def llong_defs)
  moreover have "concat (map record_bytes [?a]) = ''DEL 1 a'' @ [LF]" "take 7 (record_bytes ?b) = ''DEL 1 b''"
    "length (record_bytes ?b) = 8" by code_simp+
  ultimately show ?thesis
    using truncated_log_refused [of "[?a]" ?b 7 "\<lambda>n. env_at 5" "''log''" empty_store "[]"] by simp
qed

text \<open>C34. Whatever bytes a log file holds, and whether or not it can be opened, a replay that is refused
  leaves the store as it is, and one that is accepted leaves a store that satisfies the invariant.\<close>

theorem replay_is_safe:
  assumes "\<forall>n. env_ok (env n)" "store_ok store"
    and "replay_log env path file store error = (accepted, store', error')"
  shows "store_ok store' \<and> (\<not> accepted \<longrightarrow> store' = store) \<and> (accepted \<longrightarrow> error' = error)"
proof -
  have loop: "replay_loop env limit n s loaded = Inr l \<Longrightarrow> store_ok loaded \<Longrightarrow> store_ok l" for limit n s loaded l
    using replay_loop_ok assms(1) by blast
  show ?thesis
    using assms(2,3) loop [OF _ store_ok_empty] by (auto simp: replay_log_def split: log_file.splits sum.splits)
qed

theorem replay_is_safe_witness:
  "let result = replay_log (\<lambda>n. env_at 5) ''log'' (Contents ''SET 9 k'') empty_store [] in
   \<not> fst result \<and> fst (snd result) = empty_store"
proof -
  obtain accepted store' error' where run:
    "replay_log (\<lambda>n. env_at 5) ''log'' (Contents ''SET 9 k'') empty_store [] = (accepted, store', error')"
    by (metis prod_cases3)
  have "\<forall>n. env_ok (env_at 5)" by (simp add: env_ok_def env_at_def llong_defs)
  moreover have "\<not> fst (replay_log (\<lambda>n. env_at 5) ''log'' (Contents ''SET 9 k'') empty_store [])" by code_simp
  ultimately show ?thesis
    using replay_is_safe [OF _ store_ok_empty run] run by (simp add: Let_def)
qed

subsection \<open>Recovery\<close>

text \<open>C4. Recovery restores what was running. If no key expired while the commands ran, and every logged
  deadline lies behind the end of the replay (\<open>horizon\<close>, on the steady clock of the replay), the log of any
  list of requests is accepted, and gives every key the value it had, and a deadline to exactly the keys
  that had one; without deadlines the store is restored exactly. If the clocks of both processes are
  in step with the wall clock, no deadline moves by two seconds or more of it. The replay may take any
  time that ends before the first of the deadlines.\<close>

theorem recovery_restores:
  assumes "run execute_command events empty_store (Some []) = (rs, s, Some bytes)"
    and "along (\<lambda>env state. undisturbed env (fst state)) recorded events (empty_store, Some [])"
    and "snd (records recorded events (empty_store, Some [])) = recs"
    and "list_all record_fits recs" "list_all (in_time renv horizon) recs" "\<forall>n. replay_ready horizon (renv n)"
    and "replay_log renv path (Contents bytes) store error = (accepted, l, error')"
  shows "accepted \<and> vals l = vals s \<and> fmdom (expirations l) = fmdom (expirations s) \<and>
    (expirations s = fmempty \<longrightarrow> l = s) \<and>
    ((\<forall>(env, req) \<in> set events. in_step offset env) \<and> (\<forall>n. in_step offset' (renv n)) \<longrightarrow>
     (\<forall>k d d'. fmlookup (expirations s) k = Some d \<and> fmlookup (expirations l) k = Some d' \<longrightarrow>
        within_seconds 2 offset offset' d d'))"
  by (rule recovered [OF assms])

text \<open>A run with a set, a list that is emptied and a deadline, and a replay that takes most of a minute.\<close>

definition slow_replay :: "int \<Rightarrow> Env" where
  "slow_replay n = env_at (if n \<le> 1 then 3000000000 else 60000000000)"

definition sample_run :: "(Env \<times> RespValue) list" where
  "sample_run =
     [(env_at 5, request [''SADD'', ''k'', ''m'']), (env_at 6, request [''EXPIRE'', ''k'', ''100'']),
      (env_at 7, request [''RPUSH'', ''l'', ''x'']), (env_at 8, request [''LPOP'', ''l''])]"

theorem recovery_restores_witness:
  "let bytes = the (snd (snd (run execute_command sample_run empty_store (Some [])))) in
   vals (fst (snd (replay_log slow_replay ''log'' (Contents bytes) empty_store []))) =
   vals (fst (snd (run execute_command sample_run empty_store (Some [])))) \<and>
   within_seconds 2 0 0 100000000006
     (the (fmlookup (expirations (fst (snd (replay_log slow_replay ''log'' (Contents bytes) empty_store [])))) ''k''))"
proof -
  let ?run = "run execute_command sample_run empty_store (Some [])"
  obtain rs s log where run: "?run = (rs, s, log)" by (metis prod_cases3)
  have "snd (snd ?run) \<noteq> None" by code_simp
  with run obtain bytes where bytes: "log = Some bytes" by auto
  let ?recs = "[Command ''SADD'' [''k'', ''m''], Deadline ''k'' 100, Command ''RPUSH'' [''l'', ''x''], Command ''LPOP'' [''l'']]"
  have "along (\<lambda>env state. undisturbed env (fst state)) recorded sample_run (empty_store, Some [])"
    by code_simp
  moreover have "snd (records recorded sample_run (empty_store, Some [])) = ?recs" by code_simp
  moreover have "list_all record_fits ?recs"
    by (simp add: field_ok_def fits_llong_def llong_defs)
  moreover have "list_all (in_time slow_replay 61000000000) ?recs"
    by (simp add: slow_replay_def env_at_def ticks_per_second_def max_seconds_def whole_seconds_def time_point_max_def llong_defs)
  moreover have "\<forall>n. replay_ready 61000000000 (slow_replay n)"
    by (simp add: replay_ready_def env_ok_def slow_replay_def env_at_def ticks_per_second_def llong_defs)
  moreover obtain accepted l error where
    replayed: "replay_log slow_replay ''log'' (Contents bytes) empty_store [] = (accepted, l, error)"
    by (metis prod_cases3)
  moreover have clocks: "\<forall>(env, req) \<in> set sample_run. in_step 0 env" "\<forall>n. in_step 0 (slow_replay n)"
    by (simp_all add: sample_run_def in_step_def slow_replay_def env_at_def ticks_per_second_def)
  ultimately have restored: "vals l = vals s" "\<forall>k d d'. fmlookup (expirations s) k = Some d \<and>
      fmlookup (expirations l) k = Some d' \<longrightarrow> within_seconds 2 0 0 d d'" "fmdom (expirations l) = fmdom (expirations s)"
    using recovery_restores [OF run [unfolded bytes] _ _ _ _ _ replayed, of _ _ 0 0] clocks by blast+
  have "fmlookup (expirations (fst (snd ?run))) ''k'' = Some 100000000006" by code_simp
  then have d: "fmlookup (expirations s) ''k'' = Some 100000000006" by (simp add: run)
  then obtain d' where "fmlookup (expirations l) ''k'' = Some d'"
    using restored(3) by (metis fmdom_notD fmdom_notI not_None_eq option.distinct(1))
  then show ?thesis using restored(1,2) d replayed run bytes by (simp add: Let_def)
qed

subsection \<open>Where recovery fails\<close>














text \<open>A command that sets a key to the value it has is recorded.\<close>

lemma unchanged_set_recorded:
  "let s = \<lparr>vals = fmap_of_list [(''k'', StringValue ''v'')], expirations = fmempty\<rparr>;
       result = execute_command (env_at 5) (request [''SET'', ''k'', ''v'']) s (Some [])
   in fmlookup (vals (fst (snd result))) ''k'' = fmlookup (vals s) ''k'' \<and>
      snd (snd result) = Some (''SET 1 k 1 v'' @ [LF])"
  by code_simp

end
