(* ===== verification/Sockets.thy ===== *)
theory Sockets
  imports "HOL-Library.Word"
begin

unbundle bit_operations_syntax

text \<open>
  What the programs see of the system: the results of the calls on sockets, and the flags they pass.
  The constants have the values of the system's headers.
\<close>

datatype errno = EINTR | EAGAIN | ENOENT | OtherError

text \<open>\<open>recv\<close> returns the bytes it got, none at the end of the stream, or fails.\<close>

datatype recv_result = Recv string | RecvFails errno

text \<open>The result of \<open>kevent\<close> for one change: nothing, or the error it fails with.\<close>

type_synonym kevent_result = "errno option"

text \<open>\<open>fcntl\<close>: the flags of a descriptor, negative if reading them fails, and the result of setting
  them, for each value they could be set to.\<close>

datatype fcntl_calls = Fcntl "32 word" "32 word \<Rightarrow> 32 word"

definition O_NONBLOCK :: "32 word" where "O_NONBLOCK = 0x0004"

definition EV_ADD :: "16 word" where "EV_ADD = 0x0001"
definition EV_DELETE :: "16 word" where "EV_DELETE = 0x0002"
definition EV_ENABLE :: "16 word" where "EV_ENABLE = 0x0004"

text \<open>127.0.0.1 in host order\<close>

definition INADDR_LOOPBACK :: "32 word" where "INADDR_LOOPBACK = 0x7f000001"

fun set_non_blocking :: "fcntl_calls \<Rightarrow> bool" where
  "set_non_blocking (Fcntl flags set_flags) =
     (if sint flags < 0 then False
      else if sint (set_flags (flags OR O_NONBLOCK)) < 0 then False
      else True)"

end
