(* ===== verification/Server.thy ===== *)
theory Server
  imports Sockets Resp_Roundtrip Keyspace_Laws Replay
begin

unbundle bit_operations_syntax

text \<open>
  The event loop: \<open>src/server.cpp\<close>, and the arguments of \<open>src/main.cpp\<close>.

  \<^item> The results of the system calls are inputs of the model: a handler takes the results its
    calls get, in order, and when a list runs out the call would block. What the calls do to
    the outside is recorded in the state: the descriptors with read or write interest in
    kqueue, the bytes the kernel took for each client (\<open>wire\<close>), the client descriptors that are
    open (\<open>descriptors\<close>), the calls of \<open>close\<close> on them in order (\<open>closed\<close>).
  \<^item> \<open>ClientBuffers\<close> is a finite map from descriptors; \<open>m[fd]\<close> makes an empty buffer if there is
    none, as \<open>operator[]\<close> does.
  \<^item> A handler returns the state updated. \<open>handle_event\<close> is the body of the loop over the ready
    events, \<open>startup\<close> the beginning of \<open>run_server\<close>. Request number \<open>i\<close> of a handler is executed in
    the environment \<open>env i\<close>.
\<close>

type_synonym ClientBuffers = "(int, string) fmap"

text \<open>\<open>send\<close> takes some bytes or fails; \<open>SendBlocks\<close> is a failure with \<open>EAGAIN\<close> together with the result
  of the \<open>kevent\<close> call that then follows (\<open>SendFails EAGAIN\<close> is the case in which it works).\<close>

datatype send_result = Sent nat | SendBlocks kevent_result | SendFails errno

text \<open>\<open>accept\<close> returns a descriptor, with the results of making it non-blocking and of registering
  it for reading, or fails.\<close>

datatype accept_result = Accepted int fcntl_calls kevent_result | AcceptFails errno

datatype AfterRead = KeepOpen | CloseWhenSent | CloseNow

definition kMaxRequestBytes :: nat where "kMaxRequestBytes = 16 * 1024 * 1024"

record Server =
  srv_store :: Store
  srv_log :: log
  client_input :: ClientBuffers
  client_output :: ClientBuffers
  closing :: "int fset"
  read_interest :: "int fset"
  write_interest :: "int fset"
  wire :: "(int \<times> string) list"
  descriptors :: "int fset"
  closed :: "int list"

text \<open>\<open>m[fd]\<close>, and \<open>m[fd] = b\<close>\<close>

definition buffer_of :: "ClientBuffers \<Rightarrow> int \<Rightarrow> string" where
  "buffer_of m fd = (case fmlookup m fd of None \<Rightarrow> [] | Some b \<Rightarrow> b)"

definition set_input :: "int \<Rightarrow> string \<Rightarrow> Server \<Rightarrow> Server" where
  "set_input fd b srv = srv\<lparr>client_input := fmupd fd b (client_input srv)\<rparr>"

definition set_output :: "int \<Rightarrow> string \<Rightarrow> Server \<Rightarrow> Server" where
  "set_output fd b srv = srv\<lparr>client_output := fmupd fd b (client_output srv)\<rparr>"

definition append_output :: "int \<Rightarrow> string \<Rightarrow> Server \<Rightarrow> Server" where
  "append_output fd b srv = set_output fd (buffer_of (client_output srv) fd @ b) srv"

subsection \<open>Descriptors and filters\<close>

datatype event_filter = EVFILT_READ | EVFILT_WRITE

text \<open>What a change that \<open>kevent\<close> makes does to the registered filters.\<close>

definition change_filter :: "int \<Rightarrow> event_filter \<Rightarrow> 16 word \<Rightarrow> Server \<Rightarrow> Server" where
  "change_filter fd which flags srv =
     (let change = (\<lambda>fds. if flags AND EV_DELETE \<noteq> 0 then fds |-| {|fd|} else finsert fd fds) in
      case which of
        EVFILT_READ \<Rightarrow> srv\<lparr>read_interest := change (read_interest srv)\<rparr>
      | EVFILT_WRITE \<Rightarrow> srv\<lparr>write_interest := change (write_interest srv)\<rparr>)"

definition update_event ::
  "kevent_result \<Rightarrow> int \<Rightarrow> event_filter \<Rightarrow> 16 word \<Rightarrow> Server \<Rightarrow> bool \<times> Server"
where
  "update_event result fd which flags srv =
     (case result of
        Some e \<Rightarrow> if flags AND EV_DELETE \<noteq> 0 \<and> e = ENOENT then (True, srv) else (False, srv)
      | None \<Rightarrow> (True, change_filter fd which flags srv))"

text \<open>\<open>close\<close> of a descriptor for which no filter is registered, and of one for which there may be some:
  the system removes them.\<close>

definition close_plain :: "int \<Rightarrow> Server \<Rightarrow> Server" where
  "close_plain fd srv =
     srv\<lparr>descriptors := descriptors srv |-| {|fd|}, closed := closed srv @ [fd]\<rparr>"

definition close_fd :: "int \<Rightarrow> Server \<Rightarrow> Server" where
  "close_fd fd srv = close_plain fd
     (srv\<lparr>read_interest := read_interest srv |-| {|fd|},
          write_interest := write_interest srv |-| {|fd|}\<rparr>)"

subsection \<open>Closing and sending\<close>

text \<open>The results of the two changes that come before \<open>close\<close> are ignored, and after \<open>close\<close> they make no
  difference (\<open>close_client_any\<close> below): the model takes the case in which both work.\<close>

definition close_client :: "int \<Rightarrow> Server \<Rightarrow> Server" where
  "close_client fd srv =
     (let srv = snd (update_event None fd EVFILT_READ EV_DELETE srv);
          srv = snd (update_event None fd EVFILT_WRITE EV_DELETE srv);
          srv = close_fd fd srv
      in srv\<lparr>client_input := fmdrop fd (client_input srv),
             client_output := fmdrop fd (client_output srv),
             closing := closing srv |-| {|fd|}\<rparr>)"

text \<open>The loop of \<open>try_send\<close>: its result, what is still pending, what was sent, and the result of the
  request to be woken when the socket has room, if it came to that.\<close>

fun send_loop ::
  "send_result list \<Rightarrow> string \<Rightarrow> bool \<times> string \<times> string \<times> kevent_result option"
where
  "send_loop results [] = (True, [], [], None)"
| "send_loop [] pending = (True, pending, [], Some None)"
| "send_loop (Sent n # results) pending =
     (if 0 < n then
        (case send_loop results (drop n pending) of (ok, left, sent, blocked) \<Rightarrow>
           (ok, left, take n pending @ sent, blocked))
      else (False, pending, [], None))"
| "send_loop (SendFails e # results) pending =
     (if e = EINTR then send_loop results pending
      else if e = EAGAIN then (True, pending, [], Some None)
      else (False, pending, [], None))"
| "send_loop (SendBlocks result # results) pending = (True, pending, [], Some result)"

definition try_send :: "send_result list \<Rightarrow> int \<Rightarrow> Server \<Rightarrow> bool \<times> Server" where
  "try_send results fd srv =
     (case send_loop results (buffer_of (client_output srv) fd) of (ok, pending, sent, blocked) \<Rightarrow>
        let srv = (set_output fd pending srv)
          \<lparr>wire := wire srv @ (if sent = [] then [] else [(fd, sent)])\<rparr>
        in (ok,
            case blocked of
              None \<Rightarrow> srv
            | Some result \<Rightarrow> snd (update_event result fd EVFILT_WRITE (EV_ADD OR EV_ENABLE) srv)))"

subsection \<open>Accepting\<close>

fun accept_clients :: "accept_result list \<Rightarrow> Server \<Rightarrow> Server" where
  "accept_clients [] srv = srv"
| "accept_clients (AcceptFails e # results) srv =
     (if e = EINTR then accept_clients results srv else srv)"
| "accept_clients (Accepted fd flags registered # results) srv =
     (let srv = srv\<lparr>descriptors := finsert fd (descriptors srv)\<rparr> in
      if \<not> set_non_blocking flags then accept_clients results (close_plain fd srv)
      else case update_event registered fd EVFILT_READ (EV_ADD OR EV_ENABLE) srv of (ok, srv) \<Rightarrow>
        if \<not> ok then accept_clients results (close_plain fd srv)
        else accept_clients results (set_output fd [] (set_input fd [] srv)))"

subsection \<open>Reading\<close>

datatype recv_outcome = Drained bool | TooLarge | Broken

fun recv_loop :: "recv_result list \<Rightarrow> string \<Rightarrow> recv_outcome \<times> string" where
  "recv_loop [] buffer = (Drained False, buffer)"
| "recv_loop (Recv chunk # results) buffer =
     (if 0 < length chunk then
        if length buffer + length chunk > kMaxRequestBytes then (TooLarge, buffer)
        else recv_loop results (buffer @ chunk)
      else (Drained True, buffer))"
| "recv_loop (RecvFails e # results) buffer =
     (if e = EINTR then recv_loop results buffer
      else if e = EAGAIN then (Drained False, buffer)
      else (Broken, buffer))"

definition too_large_error :: RespValue where
  "too_large_error =
     make_error (''ERR Protocol error: request larger than '' @ to_string (int kMaxRequestBytes) @ '' bytes'')"

definition protocol_error :: "string \<Rightarrow> RespValue" where
  "protocol_error detail = make_error (''ERR Protocol error: '' @ detail)"

lemma parse_consumes:
  "pr_status (parse buf) = Ok \<Longrightarrow> 0 < pr_consumed (parse buf) \<and> pr_consumed (parse buf) \<le> length buf"
  by (rule resp.step_bounds [OF parse_outcome_Ok])

text \<open>The loop over the requests in the buffer. It returns the error that ended it, if any, and the
  replies it appended to the output.\<close>

function request_loop ::
  "(nat \<Rightarrow> Env) \<Rightarrow> nat \<Rightarrow> string \<Rightarrow> string \<Rightarrow> Store \<Rightarrow> log \<Rightarrow>
   string option \<times> string \<times> string \<times> Store \<times> log"
where
  "request_loop env i buffer out store log =
     (case pr_status (parse buffer) of
        Incomplete \<Rightarrow> (None, buffer, out, store, log)
      | Malformed \<Rightarrow>
          (Some (pr_error (parse buffer)), buffer,
           out @ serialize (protocol_error (pr_error (parse buffer))), store, log)
      | Ok \<Rightarrow>
          (case execute_command (env i) (pr_value (parse buffer)) store log of (reply, store, log) \<Rightarrow>
             request_loop env (i + 1) (drop (pr_consumed (parse buffer)) buffer)
               (out @ serialize reply) store log))"
  by pat_completeness auto
termination
  by (relation "measure (\<lambda>(env, i, buffer, out, store, log). length buffer)")
    (auto dest!: parse_consumes)

declare request_loop.simps [simp del]

definition handle_readable ::
  "(nat \<Rightarrow> Env) \<Rightarrow> recv_result list \<Rightarrow> send_result list \<Rightarrow> int \<Rightarrow> Server \<Rightarrow> AfterRead \<times> Server"
where
  "handle_readable env received sends fd srv =
     (case recv_loop received (buffer_of (client_input srv) fd) of (outcome, buffer) \<Rightarrow>
      let srv = set_input fd buffer srv in
      case outcome of
        TooLarge \<Rightarrow>
          (CloseNow, snd (try_send sends fd (append_output fd (serialize too_large_error) srv)))
      | Broken \<Rightarrow> (CloseNow, srv)
      | Drained peer_finished \<Rightarrow>
          (case request_loop env 0 buffer (buffer_of (client_output srv) fd) (srv_store srv) (srv_log srv) of
             (bad, buffer, out, store, log) \<Rightarrow>
               let srv = set_output fd out (set_input fd buffer (srv\<lparr>srv_store := store, srv_log := log\<rparr>)) in
               if bad \<noteq> None then (CloseNow, snd (try_send sends fd srv))
               else if out = [] then (if peer_finished then CloseWhenSent else KeepOpen, srv)
               else (case try_send sends fd srv of (ok, srv) \<Rightarrow>
                 if \<not> ok then (CloseNow, srv)
                 else (if peer_finished then CloseWhenSent else KeepOpen, srv))))"

subsection \<open>The event loop\<close>

datatype event =
  ErrorEvent int
| ReadEvent int "nat \<Rightarrow> Env" "recv_result list" "send_result list"
| WriteEvent int "send_result list" kevent_result
| AcceptEvent "accept_result list"

text \<open>One ready event. The first component is false when the loop is to end.\<close>

fun handle_event :: "int \<Rightarrow> event \<Rightarrow> Server \<Rightarrow> bool \<times> Server" where
  "handle_event listen_fd (ErrorEvent fd) srv =
     (if fd = listen_fd then (False, srv) else (True, close_client fd srv))"
| "handle_event listen_fd (AcceptEvent results) srv = (True, accept_clients results srv)"
| "handle_event listen_fd (ReadEvent fd env received sends) srv =
     (case handle_readable env received sends fd srv of (outcome, srv) \<Rightarrow>
        (True,
         case outcome of
           CloseNow \<Rightarrow> close_client fd srv
         | CloseWhenSent \<Rightarrow>
             if buffer_of (client_output srv) fd = [] then close_client fd srv
             else srv\<lparr>closing := finsert fd (closing srv)\<rparr>
         | KeepOpen \<Rightarrow> srv))"
| "handle_event listen_fd (WriteEvent fd sends unregistered) srv =
     (case try_send sends fd srv of (ok, srv) \<Rightarrow>
        (True,
         if \<not> ok then close_client fd srv
         else if buffer_of (client_output srv) fd = [] then
           let srv = snd (update_event unregistered fd EVFILT_WRITE EV_DELETE srv) in
           if fd |\<in>| closing srv then close_client fd srv else srv
         else srv))"

fun handle_events :: "int \<Rightarrow> event list \<Rightarrow> Server \<Rightarrow> bool \<times> Server" where
  "handle_events listen_fd [] srv = (True, srv)"
| "handle_events listen_fd (e # es) srv =
     (case handle_event listen_fd e srv of (running, srv) \<Rightarrow>
      case handle_events listen_fd es srv of (running', srv) \<Rightarrow> (running \<and> running', srv))"

text \<open>The end of \<open>run_server\<close>: every client is closed.\<close>

definition shutdown :: "int list \<Rightarrow> Server \<Rightarrow> Server" where
  "shutdown clients srv =
     (fold close_fd clients srv)\<lparr>client_input := fmempty, client_output := fmempty, closing := {||}\<rparr>"

text \<open>The beginning: nothing is served unless the log was replayed and can be written.\<close>

definition startup ::
  "(int \<Rightarrow> Env) \<Rightarrow> string \<Rightarrow> log_file \<Rightarrow> bool \<Rightarrow> string + Server"
where
  "startup env log_path file openable =
     (case replay_log env log_path file empty_store [] of (loaded, store, error) \<Rightarrow>
        if \<not> loaded then Inl (''cannot start: '' @ error)
        else (case open_log file openable of (opened, log) \<Rightarrow>
          if \<not> opened then Inl (''cannot open '' @ log_path @ '' for appending'')
          else Inr \<lparr>srv_store = store, srv_log = log, client_input = fmempty, client_output = fmempty,
                closing = {||}, read_interest = {||}, write_interest = {||}, wire = [],
                descriptors = {||}, closed = []\<rparr>))"

subsection \<open>The port\<close>

text \<open>\<open>strtol\<close> in base 10 on a string: leading spaces, a sign, digits; the number it denotes is
  clamped to the range of \<open>long\<close>, and the second result is how many bytes it used, 0 if there are
  no digits.\<close>

definition strtol :: "string \<Rightarrow> int \<times> nat" where
  "strtol text =
     (let spaces = length (takeWhile is_space text);
          body = drop spaces text;
          signed = (body \<noteq> [] \<and> (hd body = CHR ''-'' \<or> hd body = CHR ''+''));
          ds = takeWhile is_digit (if signed then tl body else body);
          number = (if signed \<and> hd body = CHR ''-'' then - digits_value ds else digits_value ds)
      in if ds = [] then (0, 0)
         else (max LLONG_MIN (min LLONG_MAX number), spaces + (if signed then 1 else 0) + length ds))"

text \<open>\<open>argv\<close> without the program: the path of the log and the port, or nothing for the usage message.\<close>

definition main_arguments :: "string list \<Rightarrow> (string \<times> 16 word) option" where
  "main_arguments args =
     (let log_path = (if 0 < length args then args ! 0 else ''redis-lite.aof'') in
      if 1 < length args then
        (case strtol (args ! 1) of (parsed, used) \<Rightarrow>
           if used = 0 \<or> used \<noteq> length (args ! 1) \<or> parsed < 1 \<or> parsed > 65535 then None
           else Some (log_path, word_of_int parsed))
      else Some (log_path, 6379))"

end
