(* ===== verification/Server_Laws.thy ===== *)
theory Server_Laws
  imports Server Recovery
begin

text \<open>
  The loops of the event loop in closed form, and its invariant.

  \<^item> \<open>request_loop\<close> drains the buffer, runs what it drained, and appends the replies.
  \<^item> \<open>send_loop\<close> splits what is pending into what the kernel took and what is left.
  \<^item> \<open>server_ok\<close>: bytes owed to a client are never forgotten, no buffer outgrows its limit, and the
    store satisfies its own invariant.
\<close>

subsection \<open>The request loop\<close>

definition serve :: "(nat \<Rightarrow> Env) \<Rightarrow> nat \<Rightarrow> RespValue list \<Rightarrow> (Env \<times> RespValue) list" where
  "serve env i requests = zip (map env [i..<i + length requests]) requests"

lemma serve_Cons [simp]: "serve env i (v # vs) = (env i, v) # serve env (i + 1) vs"
  by (simp add: serve_def upt_conv_Cons del: upt_Suc)

lemma serve_Nil [simp]: "serve env i [] = []"
  by (simp add: serve_def)

lemma serve_append: "serve env i (vs @ ws) = serve env i vs @ serve env (i + length vs) ws"
  by (induction vs arbitrary: i) simp_all

definition final_error :: "string option \<Rightarrow> string" where
  "final_error bad = (case bad of None \<Rightarrow> [] | Some e \<Rightarrow> serialize (protocol_error e))"

lemma final_error_simps [simp]:
  "final_error None = []" "final_error (Some e) = serialize (protocol_error e)"
  by (simp_all add: final_error_def)

lemma request_loop_drain:
  "drain parse_outcome buffer = (vs, rest, bad) \<Longrightarrow>
   run execute_command (serve env i vs) s log = (replies, s', log') \<Longrightarrow>
   request_loop env i buffer out s log =
     (bad, rest, out @ concat (map serialize replies) @ final_error bad, s', log')"
proof (induction "length buffer" arbitrary: i buffer out s log vs replies rule: less_induct)
  case less
  show ?case
  proof (cases "pr_status (parse buffer)")
    case Ok
    let ?v = "pr_value (parse buffer)" and ?n = "pr_consumed (parse buffer)"
    note complete = parse_outcome_Ok [OF Ok]
    obtain ws where ws: "drain parse_outcome (drop ?n buffer) = (ws, rest, bad)" "vs = ?v # ws"
      using less.prems(1) resp.drain_Value [OF complete] by (auto split: prod.splits)
    obtain r s1 log1 where one: "execute_command (env i) ?v s log = (r, s1, log1)" by (metis prod_cases3)
    obtain rs where rs: "run execute_command (serve env (i + 1) ws) s1 log1 = (rs, s', log')" "replies = r # rs"
      using less.prems(2) by (auto simp: ws(2) one split: prod.splits)
    have "length (drop ?n buffer) < length buffer" using parse_consumes [OF Ok] by auto
    from less.hyps [OF this ws(1) rs(1), of "out @ serialize r"] show ?thesis
      by (subst request_loop.simps) (simp add: Ok one rs(2))
  next
    case Incomplete
    then have "drain parse_outcome buffer = ([], buffer, None)"
      by (intro resp.drain_More) (simp add: parse_outcome_More_iff)
    with less.prems Incomplete show ?thesis by (subst request_loop.simps) simp
  next
    case Malformed
    from resp.drain_Bad [OF parse_outcome_Malformed [OF this]] less.prems Malformed show ?thesis
      by (subst request_loop.simps) simp
  qed
qed

text \<open>Chunking cannot be observed: serving the requests of a first chunk and then, with what was left of
  it, those of a second gives the replies, the store, the log and the rest of the buffer that
  serving both chunks at once gives.\<close>

lemma request_loop_chunks:
  assumes "request_loop env i first out s log = (None, rest, out', s', log')"
  shows "request_loop env i (first @ second) out s log =
    request_loop env (i + length (fst (drain parse_outcome first))) (rest @ second) out' s' log'"
proof -
  obtain vs rest0 bad where d: "drain parse_outcome first = (vs, rest0, bad)" by (metis prod_cases3)
  obtain rs s1 log1 where r: "run execute_command (serve env i vs) s log = (rs, s1, log1)" by (metis prod_cases3)
  from request_loop_drain [OF d r, of out] assms
  have eq: "bad = None" "rest0 = rest" "out' = out @ concat (map serialize rs)" "s1 = s'" "log1 = log'"
    by auto
  obtain ws rest2 bad2 where d2: "drain parse_outcome (rest @ second) = (ws, rest2, bad2)" by (metis prod_cases3)
  obtain rs2 s2 log2 where r2: "run execute_command (serve env (i + length vs) ws) s' log' = (rs2, s2, log2)"
    by (metis prod_cases3)
  have "drain parse_outcome (first @ second) = (vs @ ws, rest2, bad2)"
    using resp.drain_append [of first vs rest second] d d2 eq by simp
  moreover have "run execute_command (serve env i (vs @ ws)) s log = (rs @ rs2, s2, log2)"
    by (simp add: serve_append run_append r r2 eq)
  ultimately have "request_loop env i (first @ second) out s log =
      (bad2, rest2, out @ concat (map serialize (rs @ rs2)) @ final_error bad2, s2, log2)"
    by (rule request_loop_drain)
  moreover have "request_loop env (i + length vs) (rest @ second) out' s' log' =
      (bad2, rest2, out' @ concat (map serialize rs2) @ final_error bad2, s2, log2)"
    by (rule request_loop_drain [OF d2 r2])
  ultimately show ?thesis by (simp add: d eq)
qed

lemma request_loop_shrinks:
  assumes "request_loop env i buffer out s log = (bad, rest, out', s', log')"
  shows "length rest \<le> length buffer" and "\<exists>new. out' = out @ new"
    and "(\<And>j. env_ok (env j)) \<Longrightarrow> store_ok s \<Longrightarrow> store_ok s'"
proof -
  obtain vs rest0 bad0 where d: "drain parse_outcome buffer = (vs, rest0, bad0)" by (metis prod_cases3)
  obtain rs s1 log1 where r: "run execute_command (serve env i vs) s log = (rs, s1, log1)" by (metis prod_cases3)
  note eq = request_loop_drain [OF d r, of out]
  obtain k where "rest0 = drop k buffer" using resp.drain_rest [OF d] by blast
  with eq assms show "length rest \<le> length buffer" by simp
  show "\<exists>new. out' = out @ new" using eq assms by auto
  assume ready: "\<And>j. env_ok (env j)" and ok: "store_ok s"
  have "\<forall>(e, req) \<in> set (serve env i vs). env_ok e"
    using ready by (fastforce simp: serve_def dest: set_zip_leftD)
  from store.run_keeps [OF ok this r] eq assms show "store_ok s'" by simp
qed

subsection \<open>Filters\<close>

lemma filter_flags:
  "(EV_ADD OR EV_ENABLE) AND EV_DELETE = 0" "EV_DELETE AND EV_DELETE \<noteq> 0"
  by (simp_all add: EV_ADD_def EV_ENABLE_def EV_DELETE_def)

lemma update_event_add [simp]:
  "update_event (Some e) fd which (EV_ADD OR EV_ENABLE) srv = (False, srv)"
  "update_event None fd EVFILT_READ (EV_ADD OR EV_ENABLE) srv =
     (True, srv\<lparr>read_interest := finsert fd (read_interest srv)\<rparr>)"
  "update_event None fd EVFILT_WRITE (EV_ADD OR EV_ENABLE) srv =
     (True, srv\<lparr>write_interest := finsert fd (write_interest srv)\<rparr>)"
  by (simp_all add: update_event_def change_filter_def filter_flags)

lemma update_event_delete [simp]:
  "update_event (Some e) fd which EV_DELETE srv = (e = ENOENT, srv)"
  "update_event None fd EVFILT_READ EV_DELETE srv =
     (True, srv\<lparr>read_interest := read_interest srv |-| {|fd|}\<rparr>)"
  "update_event None fd EVFILT_WRITE EV_DELETE srv =
     (True, srv\<lparr>write_interest := write_interest srv |-| {|fd|}\<rparr>)"
  using filter_flags by (simp_all add: update_event_def change_filter_def)

lemma close_client_eq:
  "close_client fd srv =
     srv\<lparr>read_interest := read_interest srv |-| {|fd|},
         write_interest := write_interest srv |-| {|fd|},
         descriptors := descriptors srv |-| {|fd|},
         closed := closed srv @ [fd],
         client_input := fmdrop fd (client_input srv),
         client_output := fmdrop fd (client_output srv),
         closing := closing srv |-| {|fd|}\<rparr>"
  by (simp add: close_client_def close_fd_def close_plain_def)

text \<open>Whether the filters could be removed before \<open>close\<close> makes no difference behind it.\<close>

lemma close_client_any:
  "close_fd fd (snd (update_event second fd EVFILT_WRITE EV_DELETE
     (snd (update_event first fd EVFILT_READ EV_DELETE srv)))) = close_fd fd srv"
  by (cases first; cases second) (simp_all add: close_fd_def)

subsection \<open>Sending and receiving\<close>

text \<open>Registering a descriptor for writing works.\<close>

definition registers :: "send_result list \<Rightarrow> bool" where
  "registers results \<longleftrightarrow> list_all (\<lambda>r. case r of SendBlocks result \<Rightarrow> result = None | _ \<Rightarrow> True) results"

lemma registers_simps [simp]:
  "registers []" "registers (Sent n # rs) \<longleftrightarrow> registers rs" "registers (SendFails e # rs) \<longleftrightarrow> registers rs"
  "registers (SendBlocks result # rs) \<longleftrightarrow> result = None \<and> registers rs"
  by (simp_all add: registers_def)

lemma send_loop_splits:
  "send_loop results pending = (ok, left, sent, blocked) \<Longrightarrow>
   pending = sent @ left \<and> (ok \<longrightarrow> registers results \<longrightarrow> left \<noteq> [] \<longrightarrow> blocked = Some None)"
proof (induction results pending arbitrary: sent left rule: send_loop.induct)
  case (3 n results c cs)
  show ?case
  proof (cases "0 < n")
    case True
    obtain sent' where rest: "send_loop results (drop n (c # cs)) = (ok, left, sent', blocked)"
      and sent: "sent = take n (c # cs) @ sent'"
      using 3(2) True by (auto split: prod.splits)
    have "c # cs = take n (c # cs) @ drop n (c # cs)" by simp
    with 3(1) [OF True rest] sent show ?thesis by (metis append_assoc registers_simps(2))
  next
    case False
    with 3(2) show ?thesis by simp
  qed
qed (auto split: if_splits)

lemma recv_loop_bound:
  "recv_loop results buffer = (outcome, buffer') \<Longrightarrow> length buffer \<le> kMaxRequestBytes \<Longrightarrow>
   length buffer' \<le> kMaxRequestBytes"
  by (induction results buffer rule: recv_loop.induct) (auto split: if_splits)

subsection \<open>Reading in closed form\<close>

lemma handle_readable_drained:
  assumes "recv_loop received (buffer_of (client_input srv) fd) = (Drained finished, buffer)"
    and "drain parse_outcome buffer = (requests, rest, bad)"
    and "run execute_command (serve env 0 requests) (srv_store srv) (srv_log srv) = (replies, s', log')"
    and "out = buffer_of (client_output srv) fd @ concat (map serialize replies) @ final_error bad"
    and "served = set_output fd out (set_input fd rest ((set_input fd buffer srv)\<lparr>srv_store := s', srv_log := log'\<rparr>))"
    and "try_send sends fd served = (ok, sent)"
  shows "handle_readable env received sends fd srv =
    (if bad \<noteq> None then (CloseNow, sent)
     else if out = [] then (if finished then CloseWhenSent else KeepOpen, served)
     else if \<not> ok then (CloseNow, sent)
     else (if finished then CloseWhenSent else KeepOpen, sent))"
proof -
  have "request_loop env 0 buffer (buffer_of (client_output srv) fd) (srv_store srv) (srv_log srv) =
      (bad, rest, out, s', log')"
    unfolding assms(4) by (rule request_loop_drain [OF assms(2,3)])
  moreover have "srv_store (set_input fd buffer srv) = srv_store srv" "srv_log (set_input fd buffer srv) = srv_log srv"
    "client_output (set_input fd buffer srv) = client_output srv"
    by (simp_all add: set_input_def)
  ultimately show ?thesis
    using assms(1,5,6) by (simp add: handle_readable_def Let_def)
qed

subsection \<open>The invariant\<close>

definition owed :: "Server \<Rightarrow> int \<Rightarrow> string" where
  "owed srv fd = buffer_of (client_output srv) fd"

text \<open>The descriptors in \<open>stuck\<close> are those of clients for which the system refused a write registration;
  \<open>try_send\<close> does not look at the result of that call.\<close>

definition server_ok :: "int fset \<Rightarrow> Server \<Rightarrow> bool" where
  "server_ok stuck srv \<longleftrightarrow>
     store_ok (srv_store srv) \<and>
     fmpred (\<lambda>fd pending. pending \<noteq> [] \<longrightarrow> fd |\<in>| write_interest srv |\<union>| stuck) (client_output srv) \<and>
     closing srv |\<subseteq>| write_interest srv |\<union>| stuck \<and>
     closing srv |\<subseteq>| fmdom (client_output srv) \<and>
     fmpred (\<lambda>fd buffer. length buffer \<le> kMaxRequestBytes) (client_input srv)"

lemma server_ok_iff:
  "server_ok stuck srv \<longleftrightarrow> store_ok (srv_store srv) \<and>
     (\<forall>fd. owed srv fd \<noteq> [] \<longrightarrow> fd |\<in>| write_interest srv \<or> fd |\<in>| stuck) \<and>
     (\<forall>fd. fd |\<in>| closing srv \<longrightarrow> (fd |\<in>| write_interest srv \<or> fd |\<in>| stuck) \<and> fd |\<in>| fmdom (client_output srv)) \<and>
     (\<forall>fd. length (buffer_of (client_input srv) fd) \<le> kMaxRequestBytes)"
  by (auto simp: server_ok_def owed_def buffer_of_def fmpred_iff fsubset_iff split: option.splits)

lemma owed_known: "owed srv fd \<noteq> [] \<Longrightarrow> fd |\<in>| fmdom (client_output srv)"
  by (auto simp: owed_def buffer_of_def split: option.splits intro: fmdomI)

text \<open>More descriptors may be stuck, and only those of clients that are there matter.\<close>

lemma server_ok_mono: "server_ok stuck srv \<Longrightarrow> server_ok (stuck |\<union>| further) srv"
  by (auto simp: server_ok_iff)

lemma server_ok_clients: "server_ok stuck srv \<Longrightarrow> server_ok (stuck |\<inter>| fmdom (client_output srv)) srv"
  using owed_known by (fastforce simp: server_ok_iff)

lemma buffer_of_upd [simp]:
  "buffer_of (fmupd fd b m) fd' = (if fd' = fd then b else buffer_of m fd')"
  "buffer_of (fmdrop fd m) fd' = (if fd' = fd then [] else buffer_of m fd')"
  "buffer_of fmempty fd' = []"
  by (simp_all add: buffer_of_def)

lemma set_input_fields [simp]:
  "client_output (set_input fd b srv) = client_output srv" "srv_store (set_input fd b srv) = srv_store srv"
  "srv_log (set_input fd b srv) = srv_log srv"
  by (simp_all add: set_input_def)

lemmas server_defs = server_ok_iff owed_def set_input_def set_output_def append_output_def

lemma close_client_ok: "server_ok stuck srv \<Longrightarrow> server_ok stuck (close_client fd srv)"
  by (auto simp: server_defs close_client_eq)

text \<open>Closing a client mends whatever was wrong with that client.\<close>

definition ok_but :: "int fset \<Rightarrow> int \<Rightarrow> Server \<Rightarrow> bool" where
  "ok_but stuck fd srv \<longleftrightarrow> store_ok (srv_store srv) \<and>
     (\<forall>fd'. fd' \<noteq> fd \<longrightarrow> (owed srv fd' \<noteq> [] \<longrightarrow> fd' |\<in>| write_interest srv \<or> fd' |\<in>| stuck) \<and>
        (fd' |\<in>| closing srv \<longrightarrow>
          (fd' |\<in>| write_interest srv \<or> fd' |\<in>| stuck) \<and> fd' |\<in>| fmdom (client_output srv)) \<and>
        length (buffer_of (client_input srv) fd') \<le> kMaxRequestBytes)"

lemma close_client_mends: "ok_but stuck fd srv \<Longrightarrow> server_ok stuck (close_client fd srv)"
  by (auto simp: server_defs close_client_eq ok_but_def)

lemma mended:
  "ok_but stuck fd srv \<Longrightarrow> (owed srv fd \<noteq> [] \<longrightarrow> fd |\<in>| write_interest srv \<or> fd |\<in>| stuck) \<Longrightarrow>
   (fd |\<in>| closing srv \<longrightarrow> (fd |\<in>| write_interest srv \<or> fd |\<in>| stuck) \<and> fd |\<in>| fmdom (client_output srv)) \<Longrightarrow>
   length (buffer_of (client_input srv) fd) \<le> kMaxRequestBytes \<Longrightarrow> server_ok stuck srv"
  unfolding ok_but_def server_ok_iff by metis

lemma closing_ok:
  "server_ok stuck srv \<Longrightarrow> owed srv fd \<noteq> [] \<Longrightarrow> server_ok stuck (srv\<lparr>closing := finsert fd (closing srv)\<rparr>)"
  using owed_known by (fastforce simp: server_ok_iff owed_def)

lemma server_ok_but: "server_ok stuck srv \<Longrightarrow> ok_but stuck fd srv"
  by (simp add: server_ok_iff ok_but_def)

text \<open>What \<open>try_send\<close> does to the state.\<close>

lemma try_send_eq:
  assumes "send_loop sends (owed srv fd) = (ok, left, sent, blocked)"
  shows "try_send sends fd srv = (ok, (set_output fd left srv)
    \<lparr>wire := wire srv @ (if sent = [] then [] else [(fd, sent)]),
     write_interest := (if blocked = Some None then finsert fd (write_interest srv) else write_interest srv)\<rparr>)"
proof (cases blocked)
  case (Some result)
  with assms show ?thesis
    by (cases srv; cases result) (auto simp: try_send_def set_output_def owed_def Let_def)
qed (use assms in \<open>cases srv; auto simp: try_send_def set_output_def owed_def Let_def\<close>)

lemma try_send_cases:
  assumes "try_send sends fd srv = (ok, srv')"
  obtains left sent armed where "owed srv fd = sent @ left"
    "srv' = (set_output fd left srv)
       \<lparr>wire := wire srv @ (if sent = [] then [] else [(fd, sent)]),
        write_interest := (if armed then finsert fd (write_interest srv) else write_interest srv)\<rparr>"
    "ok \<Longrightarrow> registers sends \<Longrightarrow> left \<noteq> [] \<Longrightarrow> armed"
proof -
  obtain ok' left sent blocked where loop: "send_loop sends (owed srv fd) = (ok', left, sent, blocked)"
    by (metis prod_cases4)
  show thesis
    by (rule that [of sent left "blocked = Some None"])
      (use assms try_send_eq [OF loop] send_loop_splits [OF loop] in auto)
qed

lemma try_send_ok_but: "try_send sends fd srv = (ok, srv') \<Longrightarrow> ok_but stuck fd srv \<Longrightarrow> ok_but stuck fd srv'"
  by (erule try_send_cases) (auto simp: ok_but_def owed_def set_output_def)

lemma try_send_ok:
  assumes "try_send sends fd srv = (True, srv')" "registers sends \<or> fd |\<in>| stuck" "ok_but stuck fd srv"
    and "fd |\<in>| closing srv \<longrightarrow> (fd |\<in>| write_interest srv \<or> fd |\<in>| stuck) \<and> fd |\<in>| fmdom (client_output srv)"
    and "length (buffer_of (client_input srv) fd) \<le> kMaxRequestBytes"
  shows "server_ok stuck srv'"
proof (rule mended)
  show "ok_but stuck fd srv'" by (rule try_send_ok_but [OF assms(1,3)])
qed (rule try_send_cases [OF assms(1)]; use assms in \<open>auto simp: owed_def set_output_def\<close>)+

lemma close_plain_ok: "server_ok stuck srv \<Longrightarrow> server_ok stuck (close_plain fd srv)"
  by (simp add: server_ok_iff owed_def close_plain_def)

lemma new_client_ok:
  "server_ok stuck srv \<Longrightarrow> server_ok stuck (set_output fd [] (set_input fd [] (srv\<lparr>read_interest := finsert fd (read_interest srv)\<rparr>)))"
  by (simp add: server_defs)

lemma accept_clients_ok: "server_ok stuck srv \<Longrightarrow> server_ok stuck (accept_clients results srv)"
proof (induction results srv rule: accept_clients.induct)
  case (3 fd flags registered results srv)
  have opened: "server_ok stuck (srv\<lparr>descriptors := finsert fd (descriptors srv)\<rparr>)"
    using 3(4) by (simp add: server_ok_iff owed_def)
  show ?case
    using 3(1) [OF refl _ close_plain_ok [OF opened]] 3(2) [OF refl] 3(3) [OF refl]
      close_plain_ok [OF opened] new_client_ok [OF opened]
    by (cases registered) (fastforce simp: Let_def)+
qed simp_all

lemma handle_readable_ok:
  assumes "server_ok stuck srv" "\<And>i. env_ok (env i)" "registers sends \<or> fd |\<in>| stuck"
    and "handle_readable env received sends fd srv = (outcome, srv')"
  shows "ok_but stuck fd srv' \<and> (outcome \<noteq> CloseNow \<longrightarrow> server_ok stuck srv')"
proof -
  obtain result buffer where recv: "recv_loop received (buffer_of (client_input srv) fd) = (result, buffer)"
    by (cases "recv_loop received (buffer_of (client_input srv) fd)")
  have bound: "length buffer \<le> kMaxRequestBytes"
    using recv_loop_bound [OF recv] assms(1) by (simp add: server_ok_iff)
  have start: "ok_but stuck fd srv" by (rule server_ok_but [OF assms(1)])
  show ?thesis
  proof (cases result)
    case TooLarge
    let ?srv = "append_output fd (serialize too_large_error) (set_input fd buffer srv)"
    have "ok_but stuck fd ?srv" using start by (simp add: ok_but_def server_defs)
    with try_send_ok_but [of sends fd ?srv] TooLarge recv assms(4) show ?thesis
      by (auto simp: handle_readable_def Let_def) (metis prod.collapse)
  next
    case Broken
    with start recv assms(4) show ?thesis
      by (auto simp: handle_readable_def Let_def ok_but_def server_defs)
  next
    case (Drained finished)
    obtain bad rest out s log where loop:
      "request_loop env 0 buffer (owed srv fd) (srv_store srv) (srv_log srv) = (bad, rest, out, s, log)"
      by (metis prod_cases5)
    let ?srv = "set_output fd out (set_input fd rest ((set_input fd buffer srv)\<lparr>srv_store := s, srv_log := log\<rparr>))"
    have "store_ok s"
      using request_loop_shrinks(3) [OF loop assms(2)] assms(1) by (simp add: server_ok_iff)
    then have mid: "ok_but stuck fd ?srv" using start by (simp add: ok_but_def server_defs)
    have rest: "length (buffer_of (client_input ?srv) fd) \<le> kMaxRequestBytes"
      "fd |\<in>| closing ?srv \<longrightarrow> (fd |\<in>| write_interest ?srv \<or> fd |\<in>| stuck) \<and> fd |\<in>| fmdom (client_output ?srv)"
      using request_loop_shrinks(1) [OF loop] bound assms(1) by (simp_all add: server_defs)
    obtain ok sent where send: "try_send sends fd ?srv = (ok, sent)" by (cases "try_send sends fd ?srv")
    have result: "handle_readable env received sends fd srv =
        (if bad \<noteq> None then (CloseNow, sent)
         else if out = [] then (if finished then CloseWhenSent else KeepOpen, ?srv)
         else if \<not> ok then (CloseNow, sent)
         else (if finished then CloseWhenSent else KeepOpen, sent))"
      using recv Drained loop send by (simp add: handle_readable_def Let_def owed_def)
    have "out = [] \<Longrightarrow> server_ok stuck ?srv"
      using mid rest by (auto simp: ok_but_def server_ok_iff owed_def set_output_def)
    moreover have "ok \<Longrightarrow> server_ok stuck sent"
      using try_send_ok [OF _ assms(3) mid rest(2,1)] send by simp
    ultimately show ?thesis
      using result assms(4) try_send_ok_but [OF send mid] mid by (auto split: if_splits)
  qed
qed

text \<open>An event whose environments are proper, and the client for which it meets a failing registration. A
  client is counted as stuck from then on until it is closed.\<close>

fun event_ok :: "event \<Rightarrow> bool" where
  "event_ok (ReadEvent fd env received sends) \<longleftrightarrow> (\<forall>i. env_ok (env i))"
| "event_ok e \<longleftrightarrow> True"

fun unarmed :: "event \<Rightarrow> int fset" where
  "unarmed (ReadEvent fd env received sends) = (if registers sends then {||} else {|fd|})"
| "unarmed (WriteEvent fd sends unregistered) = (if registers sends then {||} else {|fd|})"
| "unarmed e = {||}"

definition stuck_after :: "int \<Rightarrow> event \<Rightarrow> Server \<Rightarrow> int fset \<Rightarrow> int fset" where
  "stuck_after listen_fd e srv stuck =
     (stuck |\<union>| unarmed e) |\<inter>| fmdom (client_output (snd (handle_event listen_fd e srv)))"

lemma handle_event_armed:
  assumes "server_ok stuck srv" "event_ok e" "unarmed e |\<subseteq>| stuck"
  shows "server_ok stuck (snd (handle_event listen_fd e srv))"
proof (cases e)
  case (ReadEvent fd env received sends)
  obtain outcome srv' where read: "handle_readable env received sends fd srv = (outcome, srv')"
    by (cases "handle_readable env received sends fd srv")
  have "ok_but stuck fd srv' \<and> (outcome \<noteq> CloseNow \<longrightarrow> server_ok stuck srv')"
    using handle_readable_ok [OF assms(1) _ _ read] assms(2,3) ReadEvent by (simp split: if_splits)
  then show ?thesis
    using ReadEvent read
    by (cases outcome) (auto simp: close_client_mends close_client_ok closing_ok [unfolded owed_def])
next
  case (WriteEvent fd sends unregistered)
  obtain ok srv' where send: "try_send sends fd srv = (ok, srv')" by (cases "try_send sends fd srv")
  have but: "ok_but stuck fd srv'" by (rule try_send_ok_but [OF send server_ok_but [OF assms(1)]])
  show ?thesis
  proof (cases ok)
    case False
    with WriteEvent send but show ?thesis by (simp add: close_client_mends)
  next
    case True
    have ok: "server_ok stuck srv'"
      using try_send_ok [of sends fd srv srv'] send True server_ok_but [OF assms(1)] assms WriteEvent
      by (auto simp: server_ok_iff split: if_splits)
    let ?idle = "snd (update_event unregistered fd EVFILT_WRITE EV_DELETE srv')"
    have "ok_but stuck fd ?idle" using but by (cases unregistered) (auto simp: ok_but_def owed_def)
    moreover have "server_ok stuck ?idle" if "buffer_of (client_output srv') fd = []" "fd |\<notin>| closing srv'"
      using ok that by (cases unregistered) (auto simp: server_ok_iff owed_def)
    moreover have "closing ?idle = closing srv'" by (cases unregistered) simp_all
    ultimately show ?thesis
      using WriteEvent send True ok by (auto simp: Let_def close_client_mends)
  qed
qed (use assms in \<open>auto simp: close_client_ok accept_clients_ok\<close>)

lemma handle_event_ok:
  assumes "server_ok stuck srv" "event_ok e"
  shows "server_ok (stuck_after listen_fd e srv stuck) (snd (handle_event listen_fd e srv))"
  unfolding stuck_after_def
  using server_ok_mono [OF assms(1)] assms(2) by (intro server_ok_clients handle_event_armed) auto

subsection \<open>Other clients\<close>

definition delivered :: "Server \<Rightarrow> int \<Rightarrow> string" where
  "delivered srv fd = concat (map snd (filter (\<lambda>w. fst w = fd) (wire srv)))"

text \<open>All there is to a client: its buffers, its filters, whether it is to be closed and whether it is open,
  and the bytes the kernel took for it.\<close>

definition client_view ::
  "Server \<Rightarrow> int \<Rightarrow> string option \<times> string option \<times> bool \<times> bool \<times> bool \<times> bool \<times> string"
where
  "client_view srv fd =
     (fmlookup (client_input srv) fd, fmlookup (client_output srv) fd, fd |\<in>| closing srv,
      fd |\<in>| read_interest srv, fd |\<in>| write_interest srv, fd |\<in>| descriptors srv, delivered srv fd)"

lemmas client_view_defs = client_view_def delivered_def set_input_def set_output_def append_output_def

lemma close_client_view: "other \<noteq> fd \<Longrightarrow> client_view (close_client fd srv) other = client_view srv other"
  by (simp add: client_view_defs close_client_eq)

lemma try_send_view:
  "try_send sends fd srv = (ok, srv') \<Longrightarrow> other \<noteq> fd \<Longrightarrow> client_view srv' other = client_view srv other"
  by (erule try_send_cases) (simp add: client_view_defs)

lemma snd_try_send_view: "other \<noteq> fd \<Longrightarrow> client_view (snd (try_send sends fd srv)) other = client_view srv other"
  by (rule try_send_view) (rule prod.collapse [symmetric])

lemma set_buffers_view [simp]:
  "other \<noteq> fd \<Longrightarrow> client_view (set_input fd b srv) other = client_view srv other"
  "other \<noteq> fd \<Longrightarrow> client_view (set_output fd b srv) other = client_view srv other"
  "other \<noteq> fd \<Longrightarrow> client_view (append_output fd b srv) other = client_view srv other"
  "client_view (srv\<lparr>srv_store := s, srv_log := log\<rparr>) other = client_view srv other"
  by (simp_all add: client_view_defs)

lemma handle_readable_view:
  assumes "handle_readable env received sends fd srv = (outcome, srv')" "other \<noteq> fd"
  shows "client_view srv' other = client_view srv other"
  using assms
  by (auto simp: handle_readable_def Let_def snd_try_send_view try_send_view
      split: prod.splits recv_outcome.splits if_splits)

lemma handle_event_view:
  assumes "event = ReadEvent fd env received sends \<or> event = WriteEvent fd sends unregistered \<or> event = ErrorEvent fd"
    and "other \<noteq> fd"
  shows "client_view (snd (handle_event listen_fd event srv)) other = client_view srv other"
proof -
  have read: "client_view (snd (handle_event listen_fd (ReadEvent fd env received sends) srv)) other = client_view srv other"
  proof -
    obtain outcome srv' where run: "handle_readable env received sends fd srv = (outcome, srv')"
      by (cases "handle_readable env received sends fd srv")
    have "client_view (srv'\<lparr>closing := finsert fd (closing srv')\<rparr>) other = client_view srv' other"
      using assms(2) by (simp add: client_view_def delivered_def)
    with handle_readable_view [OF run assms(2)] run close_client_view [OF assms(2)] show ?thesis
      by (simp split: AfterRead.split)
  qed
  moreover have "client_view (snd (handle_event listen_fd (WriteEvent fd sends unregistered) srv)) other = client_view srv other"
  proof -
    obtain ok srv' where run: "try_send sends fd srv = (ok, srv')" by (cases "try_send sends fd srv")
    have "client_view (snd (update_event unregistered fd EVFILT_WRITE EV_DELETE srv')) other = client_view srv' other"
      using assms(2) by (cases unregistered) (simp_all add: client_view_def delivered_def)
    with try_send_view [OF run assms(2)] run close_client_view [OF assms(2)] show ?thesis
      by (simp add: Let_def)
  qed
  ultimately show ?thesis using assms close_client_view [OF assms(2)] by auto
qed

definition accepts_fd :: "int \<Rightarrow> accept_result \<Rightarrow> bool" where
  "accepts_fd fd result \<longleftrightarrow> (case result of Accepted fd' flags registered \<Rightarrow> fd' = fd | AcceptFails e \<Rightarrow> False)"

lemma accepts_fd_simps [simp]:
  "accepts_fd fd (Accepted fd' flags registered) \<longleftrightarrow> fd' = fd" "\<not> accepts_fd fd (AcceptFails e)"
  by (simp_all add: accepts_fd_def)

lemma accept_clients_view:
  "list_all (\<lambda>r. \<not> accepts_fd other r) results \<Longrightarrow>
   client_view (accept_clients results srv) other = client_view srv other"
proof (induction results srv rule: accept_clients.induct)
  case (3 fd flags registered results srv)
  let ?opened = "srv\<lparr>descriptors := finsert fd (descriptors srv)\<rparr>"
  have "client_view (close_plain fd ?opened) other = client_view srv other"
    "client_view (set_output fd [] (set_input fd [] (?opened\<lparr>read_interest := finsert fd (read_interest srv)\<rparr>))) other =
     client_view srv other"
    using 3(4) by (auto simp: client_view_defs close_plain_def)
  with 3(1) [OF refl] 3(2) [OF refl] 3(3) [OF refl] 3(4) show ?case
    by (cases registered) (fastforce simp: Let_def)+
qed simp_all

end
