(* ===== verification/Server_Properties.thy ===== *)
theory Server_Properties
  imports Server_Laws
begin

text \<open>
  The properties of the event loop: what clients may rely on, however the kernel cuts their bytes
  into pieces, and what the loop keeps true of its own state.
\<close>

subsection \<open>Requests\<close>

text \<open>C10. A client that pipelines any requests, with part of another one behind them, gets the replies
  of running them in order, each serialized behind the bytes already owed, and the part of the
  next request stays in its buffer.\<close>

theorem requests_in_order:
  assumes "list_all within_depth requests" "pr_status (parse tail) = Incomplete"
    and "run execute_command (serve env i requests) s log = (replies, s', log')"
  shows "request_loop env i (concat (map serialize requests) @ tail) out s log =
    (None, tail, out @ concat (map serialize replies), s', log')"
proof -
  have "drain parse_outcome tail = ([], tail, None)"
    using assms(2) by (intro resp.drain_More) (simp add: parse_outcome_More_iff)
  then have "drain parse_outcome (concat (map serialize requests) @ tail) = (requests, tail, None)"
    using resp.drain_encodings [OF assms(1), of tail] by simp
  from request_loop_drain [OF this assms(3), of out] show ?thesis by simp
qed

theorem requests_in_order_witness:
  "request_loop (\<lambda>i. env_at 5) 0 (concat (map serialize [request [''PING''], request [''GET'', ''k'']]) @ ''*1'') []
     empty_store None =
   (None, ''*1'', concat (map serialize [make_simple_string ''PONG'', make_null_bulk_string]), empty_store, None)"
proof -
  have run: "run execute_command (serve (\<lambda>i. env_at 5) 0 [request [''PING''], request [''GET'', ''k'']]) empty_store None =
      ([make_simple_string ''PONG'', make_null_bulk_string], empty_store, None)"
    by code_simp
  have "within_depth (request [''PING''])" "within_depth (request [''GET'', ''k''])"
    by (simp_all add: within_depth_def request_def make_defs nesting_le_iff kMaxDepth_def llong_defs)
  moreover have "pr_status (parse ''*1'') = Incomplete"
    by (simp add: parse_def parse_value_line kMaxDepth_def known_prefix_def read_line_def sv_find_def)
  ultimately show ?thesis using requests_in_order [OF _ _ run, of "''*1''" "[]"] by simp
qed

text \<open>C32. A malformed request ends a connection and nothing else: the requests before it are executed and
  answered, the protocol error follows their replies, what the kernel takes of these bytes is sent, all of
  them if it takes as much at once, and the client is closed.\<close>

theorem malformed_closes:
  assumes "recv_loop received (buffer_of (client_input srv) fd) = (Drained finished, buffer)"
    and "drain parse_outcome buffer = (requests, rest, Some e)"
    and "run execute_command (serve env 0 requests) (srv_store srv) (srv_log srv) = (replies, s', log')"
    and "pending = owed srv fd @ concat (map serialize replies) @ serialize (protocol_error e)"
    and "send_loop sends pending = (ok, left, sent, blocked)"
    and "handle_event listen_fd (ReadEvent fd env received sends) srv = (running, srv')"
  shows "running \<and> srv_store srv' = s' \<and> srv_log srv' = log' \<and> closed srv' = closed srv @ [fd] \<and>
    descriptors srv' = descriptors srv |-| {|fd|} \<and>
    fmlookup (client_input srv') fd = None \<and> fmlookup (client_output srv') fd = None \<and>
    wire srv' = wire srv @ (if sent = [] then [] else [(fd, sent)]) \<and> pending = sent @ left \<and>
    (\<forall>n more_results. sends = Sent n # more_results \<and> length pending \<le> n \<longrightarrow> wire srv' = wire srv @ [(fd, pending)])"
proof -
  let ?srv = "set_output fd pending (set_input fd rest ((set_input fd buffer srv)\<lparr>srv_store := s', srv_log := log'\<rparr>))"
  obtain ok' sent_srv where send: "try_send sends fd ?srv = (ok', sent_srv)" by (cases "try_send sends fd ?srv")
  have "request_loop env 0 buffer (owed srv fd) (srv_store srv) (srv_log srv) = (Some e, rest, pending, s', log')"
    using request_loop_drain [OF assms(2,3), of "owed srv fd"] assms(4) by simp
  then have "handle_readable env received sends fd srv = (CloseNow, sent_srv)"
    using assms(1) send by (simp add: handle_readable_def Let_def owed_def)
  with assms(6) have out: "running" "srv' = close_client fd sent_srv" by simp_all
  have some: "pending \<noteq> []" using assms(4) by (simp add: protocol_error_def make_defs)
  then have all: "sent = pending" if "sends = Sent n # more_results" "length pending \<le> n" for n more_results
    using assms(5) that by (cases pending) auto
  have "owed ?srv fd = pending" by (simp add: owed_def set_output_def)
  with send assms(5) have "srv_store sent_srv = s'" "srv_log sent_srv = log'" "closed sent_srv = closed srv"
    "descriptors sent_srv = descriptors srv" "wire sent_srv = wire srv @ (if sent = [] then [] else [(fd, sent)])"
    by (auto simp: try_send_eq set_output_def set_input_def)
  then show ?thesis
    using some all send_loop_splits [OF assms(5)] by (auto simp: out close_client_eq)
qed

theorem malformed_closes_witness:
  "let srv = \<lparr>srv_store = empty_store, srv_log = None, client_input = fmempty, client_output = fmempty,
     closing = {||}, read_interest = {|7|}, write_interest = {||}, wire = [], descriptors = {||}, closed = []\<rparr>
   in wire (snd (handle_event 3 (ReadEvent 7 (\<lambda>i. env_at 5) [Recv ''?''] [Sent 1000]) srv)) =
     [(7, serialize (protocol_error ''unknown RESP type byte''))]"
proof -
  let ?srv = "\<lparr>srv_store = empty_store, srv_log = None, client_input = fmempty, client_output = fmempty,
     closing = {||}, read_interest = {|7|}, write_interest = {||}, wire = [], descriptors = {||}, closed = []\<rparr>"
  have recv: "recv_loop [Recv ''?''] (buffer_of (client_input ?srv) 7) = (Drained False, ''?'')"
    by (simp add: kMaxRequestBytes_def)
  have drain: "drain parse_outcome ''?'' = ([], ''?'', Some ''unknown RESP type byte'')"
    by (intro resp.drain_Bad)
      (simp add: parse_outcome_def parse_def parse_value_unknown known_prefix_def kMaxDepth_def)
  have run: "run execute_command (serve (\<lambda>i. env_at 5) 0 []) (srv_store ?srv) (srv_log ?srv) =
      ([], srv_store ?srv, srv_log ?srv)"
    by simp
  let ?pending = "serialize (protocol_error ''unknown RESP type byte'')"
  have pending: "?pending = owed ?srv 7 @ concat (map serialize []) @ serialize (protocol_error ''unknown RESP type byte'')"
    by (simp add: owed_def)
  obtain ok left sent blocked where send: "send_loop [Sent 1000] ?pending = (ok, left, sent, blocked)"
    by (metis prod_cases4)
  obtain running srv' where
    event: "handle_event 3 (ReadEvent 7 (\<lambda>i. env_at 5) [Recv ''?''] [Sent 1000]) ?srv = (running, srv')"
    by (metis surj_pair)
  have "length ?pending \<le> 1000" by code_simp
  with malformed_closes [OF recv drain run pending send event] have "wire srv' = wire ?srv @ [(7, ?pending)]" by blast
  then show ?thesis unfolding Let_def event by simp
qed

subsection \<open>Sending\<close>

text \<open>Sending neither loses, repeats nor reorders a byte, whatever part of the output the kernel takes at
  a time, does not touch another client, and if bytes are left after a success the loop will be
  woken to send them.\<close>

lemma sending_conserves:
  assumes "try_send sends fd srv = (ok, srv')"
  shows "delivered srv' fd @ owed srv' fd = delivered srv fd @ owed srv fd \<and>
    (\<forall>fd'. fd' \<noteq> fd \<longrightarrow> delivered srv' fd' = delivered srv fd' \<and> owed srv' fd' = owed srv fd') \<and>
    (ok \<and> registers sends \<and> owed srv' fd \<noteq> [] \<longrightarrow> fd |\<in>| write_interest srv')"
  by (rule try_send_cases [OF assms]) (auto simp: delivered_def owed_def set_output_def)

text \<open>C33. Clients are isolated: an event of one client changes neither the buffers nor the interest nor the
  delivered bytes of another one, whatever its requests and whatever the kernel answers.\<close>

theorem clients_isolated:
  assumes "event = ReadEvent fd env received sends \<or> event = WriteEvent fd sends unregistered \<or> event = ErrorEvent fd"
    and "other \<noteq> fd"
  shows "client_view (snd (handle_event listen_fd event srv)) other = client_view srv other"
  by (rule handle_event_view [OF assms])

theorem clients_isolated_witness:
  "let srv = \<lparr>srv_store = empty_store, srv_log = None, client_input = fmap_of_list [(8, ''*1'')],
     client_output = fmap_of_list [(8, ''+OK'')], closing = {||}, read_interest = {|7, 8|},
     write_interest = {|8|}, wire = [], descriptors = {||}, closed = []\<rparr>
   in client_view (snd (handle_event 3 (ReadEvent 7 (\<lambda>i. env_at 5) [Recv ''?''] [Sent 1000]) srv)) 8 =
      client_view srv 8"
  unfolding Let_def
  by (rule clients_isolated [where fd = 7 and env = "\<lambda>i. env_at 5" and received = "[Recv ''?'']" and sends = "[Sent 1000]"])
    simp_all

subsection \<open>The state of the server\<close>

text \<open>A restart does not touch the log: a server that starts has replayed exactly the bytes of the file and goes
  on writing behind them, and a log that cannot be replayed or opened stops the start.\<close>

lemma startup_keeps_log:
  assumes "startup env log_path (Contents bytes) openable = Inr srv"
  shows "srv_log srv = Some bytes \<and> openable \<and>
    replay_log env log_path (Contents bytes) empty_store [] = (True, srv_store srv, [])"
  using assms by (auto simp: startup_def open_log_def replay_log_def split: prod.splits if_splits sum.splits)

text \<open>C37. The port is taken from its argument only if all of it is a number from 1 to 65535, and then
  no digit is lost in its 16 bits.\<close>

theorem port_exact:
  assumes "main_arguments [path, text] = Some (log_path, port)"
  shows "log_path = path \<and> 1 \<le> uint port \<and> strtol text = (uint port, length text)"
proof -
  obtain parsed used where strtol: "strtol text = (parsed, used)" by (cases "strtol text")
  with assms have range: "1 \<le> parsed" "parsed \<le> 65535" "used = length text"
    and port: "port = word_of_int parsed" "log_path = path"
    by (auto simp: main_arguments_def split: if_splits)
  have "uint port = parsed"
    using range by (simp add: port uint_word_of_int)
  then show ?thesis using range port(2) strtol by simp
qed

theorem port_exact_witness:
  "main_arguments [''log'', ''65535''] = Some (''log'', 65535) \<and> strtol ''65535'' = (65535, 5)"
proof -
  have "main_arguments [''log'', ''65535''] = Some (''log'', 65535)" by code_simp
  from this port_exact [OF this] show ?thesis by simp
qed

subsection \<open>A reply that is two\<close>




text \<open>
  The limit is checked before the buffer is parsed: a client that pipelines complete requests of
  more than the limit in one turn of the loop is closed like one whose request does not end.
\<close>

lemma limit_counts_complete_requests:
  assumes "chunk \<noteq> []" "length (concat (map serialize requests)) \<le> kMaxRequestBytes"
    and "kMaxRequestBytes < length (concat (map serialize requests)) + length chunk"
    and "buffer = concat (map serialize requests)"
  shows "recv_loop (Recv chunk # more_chunks) buffer = (TooLarge, buffer)"
  using assms by simp

end
