(* ===== verification/Serving.thy ===== *)
theory Serving
  imports Server_Laws
begin

text \<open>
  The event loop against one sequential server. \<open>schedule\<close> lists the requests the events of the loop
  execute, each with the client it came from; the statements say that the store and the log are those
  of running this list, and that each client gets the replies to its own requests, in its own order,
  whatever the others do in between.
\<close>

subsection \<open>What one event executes\<close>

definition executes :: "event \<Rightarrow> Server \<Rightarrow> (int \<times> Env \<times> RespValue) list" where
  "executes e srv =
     (case e of
        ReadEvent fd env received sends \<Rightarrow>
          (case recv_loop received (buffer_of (client_input srv) fd) of
             (Drained finished, buffer) \<Rightarrow> map (Pair fd) (serve env 0 (fst (drain parse_outcome buffer)))
           | _ \<Rightarrow> [])
      | _ \<Rightarrow> [])"

fun schedule :: "int \<Rightarrow> event list \<Rightarrow> Server \<Rightarrow> (int \<times> Env \<times> RespValue) list" where
  "schedule listen_fd [] srv = []"
| "schedule listen_fd (e # es) srv = executes e srv @ schedule listen_fd es (snd (handle_event listen_fd e srv))"

text \<open>The bytes an event brings from a client.\<close>

fun gets :: "recv_result list \<Rightarrow> string" where
  "gets [] = []"
| "gets (Recv chunk # received) = (if chunk = [] then [] else chunk @ gets received)"
| "gets (RecvFails e # received) = (if e = EINTR then gets received else [])"

fun heard :: "int \<Rightarrow> event \<Rightarrow> string" where
  "heard fd (ReadEvent fd' env received sends) = (if fd' = fd then gets received else [])"
| "heard fd e = []"

lemma recv_loop_gets:
  "recv_loop received buffer = (Drained finished, buffer') \<Longrightarrow> buffer' = buffer @ gets received"
  by (induction received buffer rule: recv_loop.induct) (auto split: if_splits)

subsection \<open>The store\<close>

definition data_of :: "Server \<Rightarrow> Store \<times> log" where
  "data_of srv = (srv_store srv, srv_log srv)"

lemma data_simps [simp]:
  "data_of (set_input fd b srv) = data_of srv" "data_of (set_output fd b srv) = data_of srv"
  "data_of (append_output fd b srv) = data_of srv" "data_of (close_client fd srv) = data_of srv"
  "data_of (close_plain fd srv) = data_of srv" "data_of (srv\<lparr>srv_store := s, srv_log := log\<rparr>) = (s, log)"
  "data_of (srv\<lparr>closing := c\<rparr>) = data_of srv" "data_of (srv\<lparr>descriptors := d\<rparr>) = data_of srv"
  "data_of (srv\<lparr>descriptors := d, read_interest := i\<rparr>) = data_of srv"
  by (simp_all add: data_of_def set_input_def set_output_def append_output_def close_client_eq close_plain_def)

lemma update_event_data [simp]: "data_of (snd (update_event result fd which flags srv)) = data_of srv"
  by (simp add: update_event_def change_filter_def data_of_def Let_def split: option.split event_filter.split)

lemma try_send_data [simp]: "data_of (snd (try_send sends fd srv)) = data_of srv"
proof -
  obtain ok srv' where send: "try_send sends fd srv = (ok, srv')" by (cases "try_send sends fd srv")
  show ?thesis by (rule try_send_cases [OF send]) (simp add: send data_of_def set_output_def)
qed

lemma accept_clients_data [simp]: "data_of (accept_clients results srv) = data_of srv"
proof (induction results srv rule: accept_clients.induct)
  case (3 fd flags registered results srv)
  from 3(1) [OF refl] 3(2) [OF refl] 3(3) [OF refl] show ?case
    by (cases registered) (fastforce simp: Let_def)+
qed simp_all

subsection \<open>The clients\<close>

text \<open>What was said to a client: the bytes the kernel took and the bytes owed.\<close>

definition said :: "Server \<Rightarrow> int \<Rightarrow> string" where
  "said srv fd = delivered srv fd @ owed srv fd"

lemma said_simps [simp]:
  "said (set_input fd b srv) fd' = said srv fd'" "said (srv\<lparr>closing := c\<rparr>) fd' = said srv fd'"
  "said (srv\<lparr>srv_store := s, srv_log := log\<rparr>) fd' = said srv fd'"
  by (simp_all add: said_def delivered_def owed_def set_input_def)

lemma try_send_said:
  assumes "try_send sends fd srv = (ok, srv')"
  shows "said srv' fd = said srv fd" "client_input srv' = client_input srv" "closed srv' = closed srv"
  by (rule try_send_cases [OF assms]; simp add: said_def delivered_def owed_def set_output_def)+

text \<open>Reading from a client that is not closed for it.\<close>

lemma handle_readable_data:
  assumes "run execute_command (map snd (executes (ReadEvent fd env received sends) srv)) (srv_store srv) (srv_log srv) =
      (replies, s', log')"
  shows "data_of (snd (handle_readable env received sends fd srv)) = (s', log')"
proof -
  obtain result buffer where recv: "recv_loop received (buffer_of (client_input srv) fd) = (result, buffer)"
    by (cases "recv_loop received (buffer_of (client_input srv) fd)")
  show ?thesis
  proof (cases result)
    case (Drained finished)
    obtain vs rest bad where d: "drain parse_outcome buffer = (vs, rest, bad)" by (metis prod_cases3)
    have "run execute_command (serve env 0 vs) (srv_store srv) (srv_log srv) = (replies, s', log')"
      using assms recv Drained d by (simp add: executes_def comp_def)
    note read = handle_readable_drained [OF recv [unfolded Drained] d this refl refl prod.collapse [symmetric]]
    show ?thesis unfolding read by (simp split: if_split)
  qed (use assms recv in \<open>simp_all add: executes_def handle_readable_def data_of_def [symmetric]\<close>)
qed

lemma handle_event_data:
  assumes "run execute_command (map snd (executes e srv)) (srv_store srv) (srv_log srv) = (replies, s', log')"
  shows "data_of (snd (handle_event listen_fd e srv)) = (s', log')"
proof (cases e)
  case (ReadEvent fd env received sends)
  obtain outcome srv1 where read: "handle_readable env received sends fd srv = (outcome, srv1)"
    by (cases "handle_readable env received sends fd srv")
  with handle_readable_data [OF assms [unfolded ReadEvent]] ReadEvent show ?thesis
    by (cases outcome) simp_all
next
  case (WriteEvent fd sends unregistered)
  obtain ok srv1 where send: "try_send sends fd srv = (ok, srv1)" by (cases "try_send sends fd srv")
  have "data_of srv1 = data_of srv" using try_send_data [of sends fd srv] send by simp
  with WriteEvent send assms show ?thesis by (simp add: Let_def executes_def data_of_def [symmetric])
qed (use assms in \<open>simp_all add: executes_def data_of_def [symmetric]\<close>)

text \<open>The calls of \<open>close\<close> of one event\<close>

definition closes :: "Server \<Rightarrow> Server \<Rightarrow> int list" where
  "closes srv srv' = drop (length (closed srv)) (closed srv')"

lemma closed_fields [simp]:
  "closed (set_input fd b srv) = closed srv" "closed (set_output fd b srv) = closed srv"
  "closed (append_output fd b srv) = closed srv" "closed (close_client fd srv) = closed srv @ [fd]"
  "closed (snd (update_event result fd which flags srv)) = closed srv"
  by (simp_all add: set_input_def set_output_def append_output_def close_client_eq update_event_def
      change_filter_def Let_def split: option.split event_filter.split)

lemma snd_try_send_closed [simp]: "closed (snd (try_send sends fd srv)) = closed srv"
  by (rule try_send_said(3)) (rule prod.collapse [symmetric])

lemma accept_clients_closed: "\<exists>fds. closed (accept_clients results srv) = closed srv @ fds"
proof (induction results srv rule: accept_clients.induct)
  case (3 fd flags registered results srv)
  from 3(1) [OF refl] 3(2) [OF refl] 3(3) [OF refl] show ?case
    by (cases registered) (fastforce simp: Let_def close_plain_def)+
qed simp_all

lemma handle_readable_closed [simp]: "closed (snd (handle_readable env received sends fd srv)) = closed srv"
  by (auto simp: handle_readable_def Let_def split: prod.splits recv_outcome.splits dest: try_send_said(3))

lemma handle_event_closed: "\<exists>fds. closed (snd (handle_event listen_fd e srv)) = closed srv @ fds"
proof (cases e)
  case (ReadEvent fd env received sends)
  obtain outcome srv1 where read: "handle_readable env received sends fd srv = (outcome, srv1)"
    by (cases "handle_readable env received sends fd srv")
  have "closed srv1 = closed srv" using handle_readable_closed [of env received sends fd srv] read by simp
  with ReadEvent read show ?thesis by (cases outcome) simp_all
next
  case (WriteEvent fd sends unregistered)
  obtain ok srv1 where send: "try_send sends fd srv = (ok, srv1)" by (cases "try_send sends fd srv")
  with WriteEvent try_send_said(3) [OF send] show ?thesis by (simp add: Let_def)
qed (use accept_clients_closed in simp_all)

text \<open>A client that is read and not closed gets the replies to the requests it completed.\<close>

lemma read_event_serves:
  assumes "run execute_command (map snd (executes (ReadEvent fd env received sends) srv)) (srv_store srv) (srv_log srv) =
      (replies, s', log')"
    and "handle_event listen_fd (ReadEvent fd env received sends) srv = (running, srv')"
    and "fd \<notin> set (closes srv srv')"
  shows "drain parse_outcome (buffer_of (client_input srv) fd @ gets received) =
      (map (snd \<circ> snd) (executes (ReadEvent fd env received sends) srv), buffer_of (client_input srv') fd, None)"
    and "said srv' fd = said srv fd @ concat (map serialize replies)"
proof -
  obtain outcome srv1 where read: "handle_readable env received sends fd srv = (outcome, srv1)"
    by (cases "handle_readable env received sends fd srv")
  have closed1: "closed srv1 = closed srv" using handle_readable_closed [of env received sends fd srv] read by simp
  then have stays: "outcome \<noteq> CloseNow" "client_input srv' = client_input srv1" "said srv' fd = said srv1 fd"
    using assms(2,3) read by (auto simp: closes_def split: AfterRead.splits if_splits)
  obtain result buffer where recv: "recv_loop received (buffer_of (client_input srv) fd) = (result, buffer)"
    by (cases "recv_loop received (buffer_of (client_input srv) fd)")
  obtain finished where result: "result = Drained finished"
    using stays(1) recv read by (cases result) (auto simp: handle_readable_def)
  obtain vs rest bad where d: "drain parse_outcome buffer = (vs, rest, bad)" by (metis prod_cases3)
  have served: "run execute_command (serve env 0 vs) (srv_store srv) (srv_log srv) = (replies, s', log')"
    using assms(1) recv result d by (simp add: executes_def comp_def)
  let ?out = "buffer_of (client_output srv) fd @ concat (map serialize replies) @ final_error bad"
  let ?served = "set_output fd ?out (set_input fd rest ((set_input fd buffer srv)\<lparr>srv_store := s', srv_log := log'\<rparr>))"
  obtain ok sent where send: "try_send sends fd ?served = (ok, sent)" by (cases "try_send sends fd ?served")
  note result_eq = handle_readable_drained [OF recv [unfolded result] d served refl refl send]
  have good: "bad = None" using stays(1) read result_eq by (cases bad) auto
  have "said srv1 fd = said ?served fd \<and> client_input srv1 = client_input ?served"
    using read result_eq stays(1) try_send_said(1,2) [OF send] by (auto split: if_splits)
  moreover have "said ?served fd = said srv fd @ concat (map serialize replies)"
    by (simp add: said_def delivered_def owed_def set_output_def set_input_def good)
  moreover have "buffer_of (client_input ?served) fd = rest" by (simp add: set_output_def set_input_def)
  ultimately have "said srv1 fd = said srv fd @ concat (map serialize replies)" "buffer_of (client_input srv1) fd = rest"
    by simp_all
  with stays show "said srv' fd = said srv fd @ concat (map serialize replies)" by simp
  have "buffer = buffer_of (client_input srv) fd @ gets received"
    by (rule recv_loop_gets [OF recv [unfolded result]])
  moreover have "map (snd \<circ> snd) (executes (ReadEvent fd env received sends) srv) = vs"
    using recv result d by (simp add: executes_def serve_def comp_def)
  ultimately show "drain parse_outcome (buffer_of (client_input srv) fd @ gets received) =
      (map (snd \<circ> snd) (executes (ReadEvent fd env received sends) srv), buffer_of (client_input srv') fd, None)"
    using d good stays(2) \<open>buffer_of (client_input srv1) fd = rest\<close> by simp
qed

subsection \<open>One client in a schedule\<close>

definition requests_of :: "int \<Rightarrow> (int \<times> Env \<times> RespValue) list \<Rightarrow> RespValue list" where
  "requests_of fd sched = map (snd \<circ> snd) (filter (\<lambda>x. fst x = fd) sched)"

definition replies_to :: "int \<Rightarrow> (int \<times> Env \<times> RespValue) list \<Rightarrow> RespValue list \<Rightarrow> RespValue list" where
  "replies_to fd sched replies = map snd (filter (\<lambda>(x, r). fst x = fd) (zip sched replies))"

lemma requests_of_append [simp]: "requests_of fd (xs @ ys) = requests_of fd xs @ requests_of fd ys"
  by (simp add: requests_of_def)

lemma replies_to_append:
  "length xs = length rs \<Longrightarrow> replies_to fd (xs @ ys) (rs @ qs) = replies_to fd xs rs @ replies_to fd ys qs"
  by (simp add: replies_to_def)

lemma own_requests:
  "\<forall>x \<in> set sched. fst x = fd \<Longrightarrow> requests_of fd sched = map (snd \<circ> snd) sched"
  "\<forall>x \<in> set sched. fst x = fd \<Longrightarrow> length sched = length rs \<Longrightarrow> replies_to fd sched rs = rs"
proof -
  assume own: "\<forall>x \<in> set sched. fst x = fd"
  then show "requests_of fd sched = map (snd \<circ> snd) sched" by (simp add: requests_of_def)
  assume len: "length sched = length rs"
  have "filter (\<lambda>(x, r). fst x = fd) (zip sched rs) = zip sched rs"
    using own by (auto intro!: filter_True dest: set_zip_leftD)
  with len show "replies_to fd sched rs = rs" by (simp add: replies_to_def)
qed

lemma others_requests:
  assumes "\<forall>x \<in> set sched. fst x \<noteq> fd"
  shows "requests_of fd sched = []" "replies_to fd sched rs = []"
  using assms by (auto simp: requests_of_def replies_to_def filter_empty_conv dest: set_zip_leftD)

lemma executes_own: "x \<in> set (executes e srv) \<Longrightarrow> \<exists>env received sends. e = ReadEvent (fst x) env received sends"
  by (cases e) (auto simp: executes_def split: prod.splits recv_outcome.splits)

text \<open>The descriptor is given to a new client.\<close>

definition reopens :: "int \<Rightarrow> event \<Rightarrow> bool" where
  "reopens fd e \<longleftrightarrow> (case e of AcceptEvent results \<Rightarrow> list_ex (accepts_fd fd) results | _ \<Rightarrow> False)"

lemma view_said:
  "client_view srv' fd = client_view srv fd \<Longrightarrow>
   said srv' fd = said srv fd \<and> buffer_of (client_input srv') fd = buffer_of (client_input srv) fd"
  by (simp add: client_view_def said_def owed_def buffer_of_def)

lemma other_event:
  assumes "handle_event listen_fd e srv = (running, srv')" "fd \<notin> set (closes srv srv')" "\<not> reopens fd e"
    and "\<not> (\<exists>env received sends. e = ReadEvent fd env received sends)"
  shows "said srv' fd = said srv fd \<and> buffer_of (client_input srv') fd = buffer_of (client_input srv) fd"
proof (cases e)
  case (ErrorEvent fd')
  show ?thesis
  proof (cases "fd' = fd")
    case True
    with assms(1,2) ErrorEvent show ?thesis by (auto simp: closes_def split: if_splits)
  next
    case False
    with handle_event_view [of e fd' _ _ _ _ fd listen_fd srv] ErrorEvent assms(1) show ?thesis
      by (intro view_said) simp
  qed
next
  case (AcceptEvent results)
  then have "list_all (\<lambda>r. \<not> accepts_fd fd r) results"
    using assms(3) by (auto simp: reopens_def list_all_iff list_ex_iff)
  with accept_clients_view [OF this, of srv] AcceptEvent assms(1) show ?thesis by (intro view_said) simp
next
  case (ReadEvent fd' env received sends)
  with handle_event_view [of e fd' env received sends _ fd listen_fd srv] assms(1,4) show ?thesis
    by (intro view_said) auto
next
  case (WriteEvent fd' sends unregistered)
  show ?thesis
  proof (cases "fd' = fd")
    case True
    obtain ok srv1 where send: "try_send sends fd srv = (ok, srv1)" by (cases "try_send sends fd srv")
    note kept = try_send_said [OF send]
    let ?idle = "snd (update_event unregistered fd EVFILT_WRITE EV_DELETE srv1)"
    have idle: "said ?idle fd = said srv1 fd" "client_input ?idle = client_input srv1"
      by (cases unregistered; simp add: said_def delivered_def owed_def)+
    have "srv' = srv1 \<or> srv' = ?idle"
      using assms(1,2) WriteEvent True send kept(3)
      by (auto simp: closes_def Let_def split: if_splits)
    then show ?thesis using kept(1,2) idle by auto
  next
    case False
    with handle_event_view [of e fd' _ _ sends unregistered fd listen_fd srv] WriteEvent assms(1) show ?thesis
      by (intro view_said) simp
  qed
qed

lemma client_event:
  assumes "run execute_command (map snd (executes e srv)) (srv_store srv) (srv_log srv) = (replies, s', log')"
    and "handle_event listen_fd e srv = (running, srv')" "fd \<notin> set (closes srv srv')" "\<not> reopens fd e"
    and "drain parse_outcome (buffer_of (client_input srv) fd) = ([], buffer_of (client_input srv) fd, None)"
  shows "drain parse_outcome (buffer_of (client_input srv) fd @ heard fd e) =
      (requests_of fd (executes e srv), buffer_of (client_input srv') fd, None)"
    and "said srv' fd = said srv fd @ concat (map serialize (replies_to fd (executes e srv) replies))"
proof -
  have both: "drain parse_outcome (buffer_of (client_input srv) fd @ heard fd e) =
      (requests_of fd (executes e srv), buffer_of (client_input srv') fd, None) \<and>
      said srv' fd = said srv fd @ concat (map serialize (replies_to fd (executes e srv) replies))"
  proof (cases "\<exists>env received sends. e = ReadEvent fd env received sends")
    case True
    then obtain env received sends where e: "e = ReadEvent fd env received sends" by blast
    have own: "\<forall>x \<in> set (executes e srv). fst x = fd" using executes_own [of _ e srv] e by fastforce
    have len: "length (executes e srv) = length replies" 
      using run_length [of execute_command "map snd (executes e srv)" "srv_store srv" "srv_log srv"] assms(1) by simp
    from read_event_serves [OF assms(1) [unfolded e] assms(2) [unfolded e] assms(3)] show ?thesis
      using own_requests [OF own] len e by simp
  next
    case False
    have "\<forall>x \<in> set (executes e srv). fst x \<noteq> fd" using executes_own [of _ e srv] False by fastforce
    moreover have "heard fd e = []" using False by (cases e) auto
    ultimately show ?thesis
      using other_event [OF assms(2-4) False] others_requests [of "executes e srv" fd] assms(5) by simp
  qed
  then show "drain parse_outcome (buffer_of (client_input srv) fd @ heard fd e) =
      (requests_of fd (executes e srv), buffer_of (client_input srv') fd, None)"
    and "said srv' fd = said srv fd @ concat (map serialize (replies_to fd (executes e srv) replies))"
    by simp_all
qed

lemma closes_event: "closed (snd (handle_event listen_fd e srv)) = closed srv @ closes srv (snd (handle_event listen_fd e srv))"
  using handle_event_closed [of listen_fd e srv] by (auto simp: closes_def)

lemma closes_events: "closed (snd (handle_events listen_fd es srv)) = closed srv @ closes srv (snd (handle_events listen_fd es srv))"
proof (induction es arbitrary: srv)
  case (Cons e es)
  from Cons.IH [of "snd (handle_event listen_fd e srv)"] closes_event [of listen_fd e srv]
  have "\<exists>fds. closed (snd (handle_events listen_fd (e # es) srv)) = closed srv @ fds"
    by (simp add: case_prod_beta)
  then show ?case by (auto simp: closes_def)
qed (simp add: closes_def)

lemma drained_again: "drain parse_outcome buf = (vs, rest, None) \<Longrightarrow> drain parse_outcome rest = ([], rest, None)"
  using resp.drain_rest [of buf vs rest None] by (simp add: resp.drain_More)

lemma schedule_data:
  assumes "run execute_command (map snd (schedule listen_fd es srv)) (srv_store srv) (srv_log srv) = (replies, s', log')"
  shows "data_of (snd (handle_events listen_fd es srv)) = (s', log')"
  using assms
proof (induction es arbitrary: srv replies)
  case Nil
  then show ?case by (simp add: data_of_def)
next
  case (Cons e es)
  obtain rs s1 log1 where one: "run execute_command (map snd (executes e srv)) (srv_store srv) (srv_log srv) = (rs, s1, log1)"
    by (metis prod_cases3)
  let ?srv = "snd (handle_event listen_fd e srv)"
  have mid: "srv_store ?srv = s1" "srv_log ?srv = log1"
    using handle_event_data [OF one, of listen_fd] by (simp_all add: data_of_def)
  obtain qs where "run execute_command (map snd (schedule listen_fd es ?srv)) s1 log1 = (qs, s', log')"
    using Cons.prems one by (auto simp: run_append split: prod.splits)
  from Cons.IH [of ?srv qs] this mid show ?case by (simp add: case_prod_beta)
qed

lemma schedule_serves:
  assumes "run execute_command (map snd (schedule listen_fd es srv)) (srv_store srv) (srv_log srv) = (replies, s', log')"
    and "drain parse_outcome (buffer_of (client_input srv) fd) = ([], buffer_of (client_input srv) fd, None)"
    and "fd \<notin> set (closes srv (snd (handle_events listen_fd es srv)))" "list_all (\<lambda>e. \<not> reopens fd e) es"
  shows "drain parse_outcome (buffer_of (client_input srv) fd @ concat (map (heard fd) es)) =
      (requests_of fd (schedule listen_fd es srv), buffer_of (client_input (snd (handle_events listen_fd es srv))) fd, None) \<and>
    said (snd (handle_events listen_fd es srv)) fd =
      said srv fd @ concat (map serialize (replies_to fd (schedule listen_fd es srv) replies))"
  using assms
proof (induction es arbitrary: srv replies)
  case Nil
  then show ?case by (simp add: requests_of_def replies_to_def)
next
  case (Cons e es)
  obtain rs s1 log1 where one: "run execute_command (map snd (executes e srv)) (srv_store srv) (srv_log srv) = (rs, s1, log1)"
    by (metis prod_cases3)
  obtain running srv1 where event: "handle_event listen_fd e srv = (running, srv1)"
    by (cases "handle_event listen_fd e srv")
  have mid: "srv_store srv1 = s1" "srv_log srv1 = log1"
    using handle_event_data [OF one, of listen_fd] event by (simp_all add: data_of_def)
  obtain qs where two: "run execute_command (map snd (schedule listen_fd es srv1)) s1 log1 = (qs, s', log')"
    and replies: "replies = rs @ qs"
    using Cons.prems(1) one event by (auto simp: run_append split: prod.splits)
  let ?last = "snd (handle_events listen_fd es srv1)"
  have last: "snd (handle_events listen_fd (e # es) srv) = ?last" using event by (simp add: case_prod_beta)
  have "closed srv1 = closed srv @ closes srv srv1" "closed ?last = closed srv1 @ closes srv1 ?last"
    using closes_event [of listen_fd e srv] closes_events [of listen_fd es srv1] event by simp_all
  then have "closed ?last = closed srv @ (closes srv srv1 @ closes srv1 ?last)" by (metis append.assoc)
  then have "closes srv ?last = closes srv srv1 @ closes srv1 ?last"
    unfolding closes_def [of srv ?last] by (metis append_eq_conv_conj)
  then have open_still: "fd \<notin> set (closes srv srv1)" "fd \<notin> set (closes srv1 ?last)"
    using Cons.prems(3) last by simp_all
  note here = client_event [OF one event open_still(1) _ Cons.prems(2)]
  have first: "drain parse_outcome (buffer_of (client_input srv) fd @ heard fd e) =
      (requests_of fd (executes e srv), buffer_of (client_input srv1) fd, None)"
    "said srv1 fd = said srv fd @ concat (map serialize (replies_to fd (executes e srv) rs))"
    using here Cons.prems(4) by simp_all
  have rest: "drain parse_outcome (buffer_of (client_input srv1) fd @ concat (map (heard fd) es)) =
      (requests_of fd (schedule listen_fd es srv1), buffer_of (client_input ?last) fd, None)"
    "said ?last fd = said srv1 fd @ concat (map serialize (replies_to fd (schedule listen_fd es srv1) qs))"
    using Cons.IH [of srv1 qs] two mid drained_again [OF first(1)] open_still(2) Cons.prems(4) by simp_all
  have "length (executes e srv) = length rs"
    using run_length [of execute_command "map snd (executes e srv)" "srv_store srv" "srv_log srv"] one by simp
  then show ?case
    using resp.drain_append [OF first(1), of "concat (map (heard fd) es)"] rest first(2) last event
    by (simp add: replies replies_to_append)
qed

text \<open>C6. The loop is one sequential server to all its clients at once. The events it handles have a schedule, a
  list of requests each of one client, such that the store and the log are those of running the
  schedule; and a client that stays connected had exactly the requests in its bytes executed, in their
  order, however its bytes were cut and whatever was done for others in between, and was sent exactly
  the replies to them, in the same order, each behind what was said before.\<close>

theorem loop_is_serial:
  assumes "run execute_command (map snd (schedule listen_fd events srv)) (srv_store srv) (srv_log srv) = (replies, s', log')"
    and "handle_events listen_fd events srv = (running, srv')"
  shows "srv_store srv' = s' \<and> srv_log srv' = log' \<and>
    (\<forall>fd. pr_status (parse (buffer_of (client_input srv) fd)) = Incomplete \<and>
       fd \<notin> set (closes srv srv') \<and> list_all (\<lambda>e. \<not> reopens fd e) events \<longrightarrow>
     drain parse_outcome (buffer_of (client_input srv) fd @ concat (map (heard fd) events)) =
       (requests_of fd (schedule listen_fd events srv), buffer_of (client_input srv') fd, None) \<and>
     delivered srv' fd @ owed srv' fd =
       delivered srv fd @ owed srv fd @
       concat (map serialize (replies_to fd (schedule listen_fd events srv) replies)))"
proof (intro conjI allI impI)
  show "srv_store srv' = s'" "srv_log srv' = log'"
    using schedule_data [OF assms(1)] assms(2) by (simp_all add: data_of_def)
next
  fix fd
  assume fd: "pr_status (parse (buffer_of (client_input srv) fd)) = Incomplete \<and>
       fd \<notin> set (closes srv srv') \<and> list_all (\<lambda>e. \<not> reopens fd e) events"
  then have "drain parse_outcome (buffer_of (client_input srv) fd) = ([], buffer_of (client_input srv) fd, None)"
    by (intro resp.drain_More) (simp add: parse_outcome_More_iff)
  from schedule_serves [OF assms(1) this] fd assms(2)
  show "drain parse_outcome (buffer_of (client_input srv) fd @ concat (map (heard fd) events)) =
       (requests_of fd (schedule listen_fd events srv), buffer_of (client_input srv') fd, None)"
    and "delivered srv' fd @ owed srv' fd =
       delivered srv fd @ owed srv fd @
       concat (map serialize (replies_to fd (schedule listen_fd events srv) replies))"
    by (simp_all add: said_def)
qed

text \<open>A request in two pieces.\<close>

lemma ping_pieces:
  "drain parse_outcome ''*1'' = ([], ''*1'', None)"
  "drain parse_outcome (serialize (request [''PING''])) = ([request [''PING'']], [], None)"
  "serialize (request [''PING'']) = ''*1'' @ crlf @ ''$4'' @ crlf @ ''PING'' @ crlf"
proof -
  have more_bytes: "drain parse_outcome buf = ([], buf, None)" if "pr_status (parse buf) = Incomplete" for buf
    using that by (intro resp.drain_More) (simp add: parse_outcome_More_iff)
  show "drain parse_outcome ''*1'' = ([], ''*1'', None)"
    by (rule more_bytes) (simp add: parse_def parse_value_line kMaxDepth_def known_prefix_def read_line_def sv_find_def)
  have "within_depth (request [''PING''])"
    by (simp add: within_depth_def request_def make_defs nesting_le_iff kMaxDepth_def llong_defs)
  then show "drain parse_outcome (serialize (request [''PING''])) = ([request [''PING'']], [], None)"
    using drain_serialized [of "[request [''PING'']]"] by simp
qed code_simp

theorem loop_is_serial_witness:
  "let srv = \<lparr>srv_store = empty_store, srv_log = None, client_input = fmap_of_list [(7, [])],
     client_output = fmap_of_list [(7, [])], closing = {||}, read_interest = {|7|}, write_interest = {||},
     wire = [], descriptors = {|7|}, closed = []\<rparr>;
     events = [ReadEvent 7 (\<lambda>i. env_at 5) [Recv ''*1''] [],
       ReadEvent 7 (\<lambda>i. env_at 6) [Recv (crlf @ ''$4'' @ crlf @ ''PING'' @ crlf)] [Sent 5, SendBlocks None]];
     srv' = snd (handle_events 3 events srv)
   in delivered srv' 7 @ owed srv' 7 = serialize (make_simple_string ''PONG'') \<and> srv_store srv' = empty_store"
proof -
  let ?srv = "\<lparr>srv_store = empty_store, srv_log = None, client_input = fmap_of_list [(7, [])],
     client_output = fmap_of_list [(7, [])], closing = {||}, read_interest = {|7|}, write_interest = {||},
     wire = [], descriptors = {|7|}, closed = []\<rparr>"
  let ?one = "ReadEvent 7 (\<lambda>i. env_at 5) [Recv ''*1''] []"
  let ?rest = "crlf @ ''$4'' @ crlf @ ''PING'' @ crlf"
  let ?two = "ReadEvent 7 (\<lambda>i. env_at 6) [Recv ?rest] [Sent 5, SendBlocks None]"
  have sizes: "length ''*1'' \<le> kMaxRequestBytes" "length (''*1'' @ ?rest) \<le> kMaxRequestBytes"
    by (simp_all add: kMaxRequestBytes_def)
  have recv1: "recv_loop [Recv ''*1''] (buffer_of (client_input ?srv) 7) = (Drained False, ''*1'')"
    by (simp add: buffer_of_def kMaxRequestBytes_def)
  let ?mid = "set_output 7 [] (set_input 7 ''*1'' ((set_input 7 ''*1'' ?srv)\<lparr>srv_store := empty_store, srv_log := None\<rparr>))"
  have "handle_readable (\<lambda>i. env_at 5) [Recv ''*1''] [] 7 ?srv = (KeepOpen, ?mid)"
    using handle_readable_drained [OF recv1 ping_pieces(1), of "\<lambda>i. env_at 5" "[]" empty_store None _ _ "[]" True ?mid]
    by (simp add: buffer_of_def try_send_def set_output_def)
  then have event1: "handle_event 3 ?one ?srv = (True, ?mid)" by simp
  have recv2: "recv_loop [Recv ?rest] (buffer_of (client_input ?mid) 7) = (Drained False, serialize (request [''PING'']))"
    by (simp add: ping_pieces(3) set_output_def set_input_def kMaxRequestBytes_def)
  have run2: "run execute_command (serve (\<lambda>i. env_at 6) 0 [request [''PING'']]) (srv_store ?mid) (srv_log ?mid) =
      ([make_simple_string ''PONG''], empty_store, None)"
    by (simp add: set_output_def set_input_def) code_simp
  obtain ok sent where send: "try_send [Sent 5, SendBlocks None] 7
      (set_output 7 (serialize (make_simple_string ''PONG'')) (set_input 7 []
        ((set_input 7 (serialize (request [''PING''])) ?mid)\<lparr>srv_store := empty_store, srv_log := None\<rparr>))) = (ok, sent)"
    by (metis surj_pair)
  have pong: "serialize (make_simple_string ''PONG'') = ''+PONG'' @ crlf" by (simp add: make_defs)
  have "ok" using send by (simp add: pong try_send_def set_output_def Let_def)
  have "handle_readable (\<lambda>i. env_at 6) [Recv ?rest] [Sent 5, SendBlocks None] 7 ?mid = (KeepOpen, sent)"
    using handle_readable_drained [OF recv2 ping_pieces(2) run2 _ refl send] \<open>ok\<close>
    by (simp add: set_output_def pong)
  then have event2: "handle_event 3 ?two ?mid = (True, sent)" by simp
  have loop: "handle_events 3 [?one, ?two] ?srv = (True, sent)"
    by (simp only: handle_events.simps event1 event2 prod.case) simp
  have "closed sent = []" using try_send_said(3) [OF send] by simp
  have first: "executes ?one ?srv = []"
    by (simp only: executes_def event.case recv1 prod.case recv_outcome.case ping_pieces(1)) simp
  have second: "executes ?two ?mid = [(7, env_at 6, request [''PING''])]"
    by (simp only: executes_def event.case recv2 prod.case recv_outcome.case ping_pieces(2)) simp
  have sched: "schedule 3 [?one, ?two] ?srv = [(7, env_at 6, request [''PING''])]"
    by (simp only: schedule.simps event1 snd_conv first second) simp
  have run: "run execute_command (map snd (schedule 3 [?one, ?two] ?srv)) (srv_store ?srv) (srv_log ?srv) =
      ([make_simple_string ''PONG''], empty_store, None)"
    unfolding sched by code_simp
  have "pr_status (parse (buffer_of (client_input ?srv) 7)) = Incomplete"
    by (simp add: buffer_of_def parse_def kMaxDepth_def parse_value.simps [of "[]"])
  moreover have "7 \<notin> set (closes ?srv sent)" by (simp add: closes_def \<open>closed sent = []\<close>)
  moreover have "list_all (\<lambda>e. \<not> reopens 7 e) [?one, ?two]" by (simp add: reopens_def)
  ultimately have "srv_store sent = empty_store"
    "delivered sent 7 @ owed sent 7 = delivered ?srv 7 @ owed ?srv 7 @
       concat (map serialize (replies_to 7 [(7, env_at 6, request [''PING''])] [make_simple_string ''PONG'']))"
    using loop_is_serial [OF run loop, unfolded sched] by blast+
  moreover have "delivered ?srv 7 = []" "owed ?srv 7 = []" by (simp_all add: delivered_def owed_def buffer_of_def)
  ultimately show ?thesis unfolding Let_def loop snd_conv by (simp add: replies_to_def)
qed

end
