(* ===== verification/Durability.thy ===== *)
theory Durability
  imports Serving
begin

text \<open>
  The server across a restart: what its clients changed is there again. This is where the event loop
  and the append-only log meet; the schedule of the loop is the run that recovery redoes.
\<close>

lemma startup_absent:
  "startup env path Absent True = Inr srv \<Longrightarrow> srv_store srv = empty_store \<and> srv_log srv = Some []"
  by (auto simp: startup_def replay_log_def open_log_def)

lemma startup_contents:
  assumes "replay_log env path (Contents bytes) empty_store [] = (True, s, error)"
  shows "\<exists>srv. startup env path (Contents bytes) True = Inr srv \<and> srv_store srv = s \<and> srv_log srv = Some bytes"
  using assms by (simp add: startup_def open_log_def)

text \<open>C9. A restart brings back what the clients of the server changed, under conditions on time. A server
  starts without a log, handles any events, and stops at any moment. If no key expired while it ran, and
  every deadline it logged lies behind the end of the replay at the restart, then a server that starts on
  the file it left behind does start, holds every value its clients left, a deadline for the same keys,
  and goes on writing behind the bytes that are there. A replay of a log without deadlines may take any
  time.\<close>

theorem restart_restores:
  assumes "startup env path Absent True = Inr srv"
    and "handle_events listen_fd events srv = (running, srv')"
    and "map snd (schedule listen_fd events srv) = requests"
    and "along (\<lambda>env state. undisturbed env (fst state)) recorded requests (empty_store, Some [])"
    and "snd (records recorded requests (empty_store, Some [])) = recs"
    and "list_all record_fits recs" "list_all (in_time renv horizon) recs" "\<forall>n. replay_ready horizon (renv n)"
  shows "\<exists>bytes restarted. srv_log srv' = Some bytes \<and> startup renv path (Contents bytes) True = Inr restarted \<and>
    vals (srv_store restarted) = vals (srv_store srv') \<and>
    fmdom (expirations (srv_store restarted)) = fmdom (expirations (srv_store srv')) \<and>
    srv_log restarted = Some bytes"
proof -
  note fresh = startup_absent [OF assms(1)]
  obtain replies s log where run: "run execute_command requests empty_store (Some []) = (replies, s, log)"
    by (metis prod_cases3)
  have data: "srv_store srv' = s" "srv_log srv' = log"
    using schedule_data [of listen_fd events srv] run assms(2,3) fresh by (simp_all add: data_of_def)
  obtain state where "records recorded requests (empty_store, Some []) = (state, recs)"
    using assms(5) by (metis prod.collapse)
  then have recs: "records recorded requests (empty_store, Some []) = ((s, log), recs)"
    using recorded_run [OF run] by simp
  from recorded_log [OF no_orphans_empty assms(4) this] obtain bytes where log: "log = Some bytes"
    by (simp add: fold_add_record)
  obtain accepted l error where replayed: "replay_log renv path (Contents bytes) empty_store [] = (accepted, l, error)"
    by (metis prod_cases3)
  from recovered [OF run [unfolded log] assms(4-8) replayed]
  have l: "accepted" "vals l = vals s" "fmdom (expirations l) = fmdom (expirations s)" by blast+
  from startup_contents [of renv path bytes l error] replayed l data log show ?thesis by auto
qed

lemma read_request_schedule:
  assumes "within_depth v" "length (serialize v) \<le> kMaxRequestBytes" "buffer_of (client_input srv) fd = []"
  shows "schedule listen_fd [ReadEvent fd env [Recv (serialize v)] sends] srv = [(fd, env 0, v)]"
proof -
  have "serialize v \<noteq> []" using resp.step_bounds [OF resp.step_encode [OF assms(1), of "[]"]] by auto
  then have "recv_loop [Recv (serialize v)] [] = (Drained False, serialize v)" using assms(2) by simp
  moreover have "drain parse_outcome (serialize v) = ([v], [], None)"
    using drain_serialized [of "[v]"] assms(1) by simp
  ultimately show ?thesis by (simp add: executes_def assms(3))
qed

theorem restart_restores_witness:
  "\<exists>srv srv' bytes restarted. startup (\<lambda>n. env_at 1) ''log'' Absent True = Inr srv \<and>
     srv' = snd (handle_events 3 [ReadEvent 7 (\<lambda>i. env_at 5) [Recv (serialize (request [''SET'', ''k'', ''v'']))] []] srv) \<and>
     srv_log srv' = Some bytes \<and> startup (\<lambda>n. env_at 3000000000) ''log'' (Contents bytes) True = Inr restarted \<and>
     fmlookup (vals (srv_store restarted)) ''k'' = Some (StringValue ''v'')"
proof -
  let ?v = "request [''SET'', ''k'', ''v'']"
  let ?events = "[ReadEvent 7 (\<lambda>i. env_at 5) [Recv (serialize ?v)] []]"
  let ?requests = "[(env_at 5, ?v)]" and ?recs = "[Command ''SET'' [''k'', ''v'']]"
  obtain srv where start: "startup (\<lambda>n. env_at 1) ''log'' Absent True = Inr srv"
    by (simp add: startup_def replay_log_def open_log_def)
  then have fresh: "client_input srv = fmempty" "srv_store srv = empty_store" "srv_log srv = Some []"
    by (auto simp: startup_def replay_log_def open_log_def)
  have bytes: "serialize ?v = ''*3'' @ crlf @ ''$3'' @ crlf @ ''SET'' @ crlf @ ''$1'' @ crlf @ ''k'' @ crlf @ ''$1'' @ crlf @ ''v'' @ crlf"
    by code_simp
  have "within_depth ?v"
    by (simp add: within_depth_def request_def make_defs nesting_le_iff kMaxDepth_def llong_defs)
  moreover have "length (serialize ?v) \<le> kMaxRequestBytes" by (simp add: bytes kMaxRequestBytes_def)
  ultimately have sched: "map snd (schedule 3 ?events srv) = ?requests"
    using read_request_schedule [of ?v srv 7 3 "\<lambda>i. env_at 5" "[]"] fresh(1) by simp
  obtain running srv' where events: "handle_events 3 ?events srv = (running, srv')"
    by (cases "handle_events 3 ?events srv")
  have along: "along (\<lambda>env state. undisturbed env (fst state)) recorded ?requests (empty_store, Some [])" by code_simp
  have recs: "snd (records recorded ?requests (empty_store, Some [])) = ?recs" by code_simp
  have "list_all record_fits ?recs" by (simp add: field_ok_def fits_llong_def llong_defs)
  moreover have "list_all (in_time (\<lambda>n. env_at 3000000000) 3500000000) ?recs" by simp
  moreover have "\<forall>n. replay_ready 3500000000 (env_at 3000000000)"
    by (simp add: replay_ready_def env_ok_def env_at_def ticks_per_second_def llong_defs)
  ultimately obtain bytes restarted where restarted: "srv_log srv' = Some bytes"
    "startup (\<lambda>n. env_at 3000000000) ''log'' (Contents bytes) True = Inr restarted"
    "vals (srv_store restarted) = vals (srv_store srv')"
    using restart_restores [OF start events sched along recs] by blast
  obtain replies s log where run: "run execute_command ?requests empty_store (Some []) = (replies, s, log)"
    by (metis prod_cases3)
  have "fmlookup (vals (fst (snd (run execute_command ?requests empty_store (Some []))))) ''k'' = Some (StringValue ''v'')"
    by code_simp
  moreover have "srv_store srv' = s"
    using schedule_data [of 3 ?events srv] run sched events fresh by (simp add: data_of_def)
  ultimately have "fmlookup (vals (srv_store restarted)) ''k'' = Some (StringValue ''v'')"
    using restarted(3) run by simp
  moreover have "srv' = snd (handle_events 3 ?events srv)" by (simp only: events snd_conv)
  ultimately show ?thesis using start restarted by blast
qed

end
