(* ===== verification/Delivery.thy ===== *)
theory Delivery
  imports Server_Laws
begin

text \<open>
  What is owed to a client is delivered. The statements are about any list of events, those of
  other clients and new connections among them; of the client itself they ask that the kernel
  takes bytes often enough, and that nothing new comes from it.
\<close>

subsection \<open>What the kernel answers\<close>

text \<open>No \<open>send\<close> fails for good; some \<open>send\<close> takes bytes; \<open>recv\<close> brings nothing new.\<close>

fun gives_up :: "send_result \<Rightarrow> bool" where
  "gives_up (Sent n) \<longleftrightarrow> n = 0"
| "gives_up (SendBlocks result) \<longleftrightarrow> False"
| "gives_up (SendFails e) \<longleftrightarrow> e \<noteq> EINTR \<and> e \<noteq> EAGAIN"

definition persists :: "send_result list \<Rightarrow> bool" where
  "persists sends \<longleftrightarrow> list_all (\<lambda>r. \<not> gives_up r) sends"

fun takes_some :: "send_result list \<Rightarrow> bool" where
  "takes_some (Sent n # sends) \<longleftrightarrow> 0 < n"
| "takes_some (SendFails e # sends) \<longleftrightarrow> e = EINTR \<and> takes_some sends"
| "takes_some sends \<longleftrightarrow> False"

fun no_news :: "recv_result list \<Rightarrow> bool" where
  "no_news [] \<longleftrightarrow> True"
| "no_news (Recv chunk # received) \<longleftrightarrow> chunk = []"
| "no_news (RecvFails e # received) \<longleftrightarrow> (if e = EINTR then no_news received else e = EAGAIN)"

lemma send_loop_persists: "persists sends \<Longrightarrow> fst (send_loop sends pending)"
  by (induction sends pending rule: send_loop.induct) (auto simp: persists_def split: prod.splits)

lemma send_loop_takes_some:
  "takes_some sends \<Longrightarrow> pending \<noteq> [] \<Longrightarrow> fst (snd (snd (send_loop sends pending))) \<noteq> []"
  by (induction sends pending rule: send_loop.induct) (auto split: prod.splits)

lemma recv_loop_no_news: "no_news received \<Longrightarrow> \<exists>eof. recv_loop received buffer = (Drained eof, buffer)"
  by (induction received buffer rule: recv_loop.induct) auto

lemma try_send_persists:
  assumes "persists sends"
  obtains srv' where "try_send sends fd srv = (True, srv')"
    "delivered srv' fd @ owed srv' fd = delivered srv fd @ owed srv fd"
    "length (owed srv' fd) \<le> length (owed srv fd) - (if takes_some sends then 1 else 0)"
    "client_input srv' = client_input srv" "closing srv' = closing srv" "descriptors srv' = descriptors srv"
proof -
  obtain ok srv' where send: "try_send sends fd srv = (ok, srv')" by (cases "try_send sends fd srv")
  obtain ok' left sent blocked where loop: "send_loop sends (owed srv fd) = (ok', left, sent, blocked)"
    by (metis prod_cases4)
  have parts: "owed srv fd = sent @ left" using send_loop_splits [OF loop] by simp
  have "ok" using send loop send_loop_persists [OF assms, of "owed srv fd"]
    by (auto simp: try_send_def owed_def Let_def split: prod.splits)
  have state: "owed srv' fd = left \<and> delivered srv' fd = delivered srv fd @ sent \<and> client_input srv' = client_input srv \<and>
      closing srv' = closing srv \<and> descriptors srv' = descriptors srv"
  proof (cases blocked)
    case (Some result)
    with send loop show ?thesis
      by (cases result) (auto simp: try_send_def owed_def set_output_def delivered_def Let_def)
  qed (use send loop in \<open>auto simp: try_send_def owed_def set_output_def delivered_def Let_def\<close>)
  have "takes_some sends \<Longrightarrow> owed srv fd \<noteq> [] \<Longrightarrow> sent \<noteq> []"
    using send_loop_takes_some [of sends "owed srv fd"] loop by simp
  then have "length left \<le> length (owed srv fd) - (if takes_some sends then 1 else 0)"
    using parts by (cases "owed srv fd = []"; cases sent) auto
  with state parts show thesis using that [of srv'] send \<open>ok\<close> by simp
qed

subsection \<open>One event\<close>

text \<open>An event that does not end the client nor brings a request of it.\<close>

fun leaves_be :: "int \<Rightarrow> event \<Rightarrow> bool" where
  "leaves_be fd (ErrorEvent fd') \<longleftrightarrow> fd' \<noteq> fd"
| "leaves_be fd (AcceptEvent results) \<longleftrightarrow> list_all (\<lambda>r. \<not> accepts_fd fd r) results"
| "leaves_be fd (ReadEvent fd' env received sends) \<longleftrightarrow> (fd' = fd \<longrightarrow> no_news received \<and> persists sends)"
| "leaves_be fd (WriteEvent fd' sends unregistered) \<longleftrightarrow> (fd' = fd \<longrightarrow> persists sends)"

fun takes_from :: "int \<Rightarrow> event \<Rightarrow> bool" where
  "takes_from fd (WriteEvent fd' sends unregistered) \<longleftrightarrow> fd' = fd \<and> takes_some sends"
| "takes_from fd e \<longleftrightarrow> False"

text \<open>The client waits for replies: no complete request of it is in its buffer.\<close>

definition waits :: "int \<Rightarrow> Server \<Rightarrow> bool" where
  "waits fd srv \<longleftrightarrow> pr_status (parse (buffer_of (client_input srv) fd)) = Incomplete"

text \<open>It is to be closed when its replies are sent, or is closed.\<close>

definition leaving :: "int \<Rightarrow> Server \<Rightarrow> bool" where
  "leaving fd srv \<longleftrightarrow> fd |\<in>| closing srv \<or> fd |\<notin>| descriptors srv"

text \<open>What is left to do for a client that is leaving: its bytes, and closing it.\<close>

definition debt :: "int \<Rightarrow> Server \<Rightarrow> nat" where
  "debt fd srv = (if fd |\<in>| descriptors srv then length (owed srv fd) + 1 else 0)"

text \<open>The server gets on with a client by \<open>n\<close> bytes, losing none.\<close>

definition drains :: "int \<Rightarrow> nat \<Rightarrow> Server \<Rightarrow> Server \<Rightarrow> bool" where
  "drains fd n srv srv' \<longleftrightarrow> (waits fd srv \<longrightarrow> waits fd srv') \<and>
     delivered srv' fd @ owed srv' fd = delivered srv fd @ owed srv fd \<and>
     length (owed srv' fd) \<le> length (owed srv fd) - n \<and>
     (leaving fd srv \<longrightarrow> leaving fd srv' \<and> debt fd srv' \<le> debt fd srv - n)"

lemma drains_trans: "drains fd n srv srv1 \<Longrightarrow> drains fd m srv1 srv2 \<Longrightarrow> drains fd (n + m) srv srv2"
  unfolding drains_def by (auto intro: le_trans [OF _ diff_le_mono])

lemma parse_empty: "pr_status (parse []) = Incomplete"
  by (simp add: parse_def kMaxDepth_def parse_value.simps [of "[]"])

lemma drains_view: "client_view srv' fd = client_view srv fd \<Longrightarrow> drains fd 0 srv srv'"
  by (simp add: drains_def waits_def leaving_def debt_def client_view_def owed_def buffer_of_def)

lemma drains_close:
  "owed srv fd = [] \<Longrightarrow> drains fd n srv (close_client fd srv)"
  by (simp add: drains_def waits_def leaving_def debt_def owed_def delivered_def close_client_eq parse_empty)

lemma drains_read:
  assumes "waits fd srv" "no_news received" "persists sends"
  shows "drains fd 0 srv (snd (handle_event listen_fd (ReadEvent fd env received sends) srv))"
proof -
  let ?in = "buffer_of (client_input srv) fd" and ?out = "owed srv fd"
  obtain eof where recv: "recv_loop received ?in = (Drained eof, ?in)"
    using recv_loop_no_news [OF assms(2)] by blast
  have loop: "request_loop env 0 ?in ?out (srv_store srv) (srv_log srv) =
      (None, ?in, ?out, srv_store srv, srv_log srv)"
    using assms(1) by (subst request_loop.simps) (simp add: waits_def)
  let ?same = "set_output fd ?out (set_input fd ?in ((set_input fd ?in srv)\<lparr>srv_store := srv_store srv, srv_log := srv_log srv\<rparr>))"
  have same: "drains fd 0 srv ?same" "owed ?same fd = ?out"
    by (simp_all add: drains_def waits_def leaving_def debt_def owed_def delivered_def set_output_def set_input_def)
  obtain srv1 where send: "try_send sends fd ?same = (True, srv1)"
    and sent: "delivered srv1 fd @ owed srv1 fd = delivered ?same fd @ owed ?same fd"
      "length (owed srv1 fd) \<le> length (owed ?same fd) - (if takes_some sends then 1 else 0)"
      "client_input srv1 = client_input ?same" "closing srv1 = closing ?same" "descriptors srv1 = descriptors ?same"
    by (rule try_send_persists [OF assms(3)])
  have read: "handle_readable env received sends fd srv =
      (if eof then CloseWhenSent else KeepOpen, if ?out = [] then ?same else srv1)"
    by (simp only: handle_readable_def recv [unfolded owed_def] loop [unfolded owed_def] send [unfolded owed_def]
        owed_def Let_def set_input_fields prod.case recv_outcome.case option.distinct not_True_eq_False if_False simp_thms
        split: if_split) blast
  show ?thesis
  proof (cases "?out = []")
    case True
    then have event: "snd (handle_event listen_fd (ReadEvent fd env received sends) srv) =
        (if eof then close_client fd ?same else ?same)"
      using read same(2) by (simp add: owed_def)
    show ?thesis
      using same drains_trans [OF same(1) drains_close [of ?same fd 0]] True event by simp
  next
    case False
    note read = read [unfolded if_not_P [OF False]]
    have event: "snd (handle_event listen_fd (ReadEvent fd env received sends) srv) =
        (if eof then if owed srv1 fd = [] then close_client fd srv1
           else srv1\<lparr>closing := finsert fd (closing srv1)\<rparr> else srv1)"
      by (simp only: handle_event.simps read) (simp add: owed_def)
    have fields: "delivered ?same fd = delivered srv fd" "owed ?same fd = owed srv fd"
      "buffer_of (client_input ?same) fd = ?in" "closing ?same = closing srv" "descriptors ?same = descriptors srv"
      by (simp_all add: delivered_def owed_def set_output_def set_input_def)
    have less: "length (owed srv1 fd) \<le> length (owed srv fd)"
      using le_trans [OF sent(2) diff_le_self] by (simp only: fields(2))
    have "drains fd 0 srv srv1"
      using less by (simp add: drains_def waits_def leaving_def debt_def sent(1,3,4,5) fields)
    moreover have "drains fd 0 srv1 (srv1\<lparr>closing := finsert fd (closing srv1)\<rparr>)"
      by (simp add: drains_def waits_def leaving_def debt_def owed_def delivered_def)
    moreover have "owed srv1 fd = [] \<Longrightarrow> drains fd 0 srv1 (close_client fd srv1)" by (rule drains_close)
    ultimately show ?thesis
      unfolding event using drains_trans [of fd 0 srv srv1 0] by (simp split: if_split)
  qed
qed

lemma drains_write:
  assumes "persists sends"
  shows "drains fd (if takes_some sends then 1 else 0) srv
    (snd (handle_event listen_fd (WriteEvent fd sends unregistered) srv))"
proof -
  let ?n = "if takes_some sends then 1 else 0 :: nat"
  obtain srv1 where send: "try_send sends fd srv = (True, srv1)"
    and sent: "delivered srv1 fd @ owed srv1 fd = delivered srv fd @ owed srv fd"
      "length (owed srv1 fd) \<le> length (owed srv fd) - ?n"
      "client_input srv1 = client_input srv" "closing srv1 = closing srv" "descriptors srv1 = descriptors srv"
    by (rule try_send_persists [OF assms])
  let ?idle = "snd (update_event unregistered fd EVFILT_WRITE EV_DELETE srv1)"
  have event: "snd (handle_event listen_fd (WriteEvent fd sends unregistered) srv) =
      (if owed srv1 fd = [] then if fd |\<in>| closing ?idle then close_client fd ?idle else ?idle else srv1)"
    using send by (simp add: owed_def)
  have idle: "client_input ?idle = client_input srv1" "closing ?idle = closing srv1"
    "descriptors ?idle = descriptors srv1" "owed ?idle fd = owed srv1 fd" "delivered ?idle fd = delivered srv1 fd"
    by (cases unregistered; simp add: owed_def delivered_def)+
  show ?thesis
  proof (cases "owed srv1 fd = []")
    case False
    have "drains fd ?n srv srv1" using sent False by (cases "owed srv fd") (auto simp: drains_def waits_def leaving_def debt_def)
    then show ?thesis unfolding event using False by simp
  next
    case True
    have "delivered (close_client fd ?idle) fd = delivered srv1 fd" "owed (close_client fd ?idle) fd = []"
      "waits fd (close_client fd ?idle)" "leaving fd (close_client fd ?idle)" "debt fd (close_client fd ?idle) = 0"
      using idle by (simp_all add: delivered_def owed_def waits_def leaving_def debt_def close_client_eq parse_empty)
    then have "drains fd ?n srv (close_client fd ?idle)" using sent True by (simp add: drains_def)
    moreover have "drains fd ?n srv ?idle" if "fd |\<notin>| closing ?idle"
      using that sent idle True by (simp add: drains_def waits_def leaving_def debt_def)
    ultimately show ?thesis unfolding event using True by simp
  qed
qed

lemma drains_event:
  assumes "waits fd srv" "leaves_be fd e"
  shows "drains fd (if takes_from fd e then 1 else 0) srv (snd (handle_event listen_fd e srv))"
proof (cases e)
  case (ErrorEvent fd')
  with assms handle_event_view [of e fd' _ _ _ _ fd listen_fd srv] show ?thesis
    by (auto intro!: drains_view)
next
  case (AcceptEvent results)
  with assms accept_clients_view [of fd results srv] show ?thesis by (auto intro!: drains_view)
next
  case (ReadEvent fd' env received sends)
  show ?thesis
  proof (cases "fd' = fd")
    case True
    with assms ReadEvent drains_read [of fd srv received sends listen_fd env] show ?thesis by simp
  next
    case False
    with handle_event_view [of e fd' env received sends _ fd listen_fd srv] ReadEvent show ?thesis
      by (auto intro!: drains_view)
  qed
next
  case (WriteEvent fd' sends unregistered)
  show ?thesis
  proof (cases "fd' = fd")
    case True
    with assms WriteEvent drains_write [of sends fd srv listen_fd unregistered] show ?thesis by simp
  next
    case False
    with handle_event_view [of e fd' _ _ sends unregistered fd listen_fd srv] WriteEvent show ?thesis
      by (auto intro!: drains_view)
  qed
qed

lemma drains_events:
  "waits fd srv \<Longrightarrow> list_all (leaves_be fd) es \<Longrightarrow>
   drains fd (length (filter (takes_from fd) es)) srv (snd (handle_events listen_fd es srv))"
proof (induction es arbitrary: srv)
  case Nil
  then show ?case by (simp add: drains_def)
next
  case (Cons e es)
  let ?srv = "snd (handle_event listen_fd e srv)"
  have one: "drains fd (if takes_from fd e then 1 else 0) srv ?srv"
    using drains_event Cons.prems by simp
  then have "waits fd ?srv" using Cons.prems(1) by (simp add: drains_def)
  from drains_trans [OF one Cons.IH [OF this]] Cons.prems(2) show ?case
    by (cases "takes_from fd e") (simp_all add: case_prod_beta)
qed

subsection \<open>All of it\<close>

text \<open>C7. Whatever is owed to a client that waits for it is delivered, complete and in order, once the kernel
  has taken bytes of it as often as there are bytes, whatever happens to other clients in between and
  however often the client's end of stream is reported; and if the client is to be closed when it has
  its replies, it is closed by the next such event.\<close>

theorem owed_is_delivered:
  assumes "pr_status (parse (buffer_of (client_input srv) fd)) = Incomplete"
    and "list_all (leaves_be fd) events"
    and "length (owed srv fd) \<le> length (filter (takes_from fd) events)"
  shows "delivered (snd (handle_events listen_fd events srv)) fd = delivered srv fd @ owed srv fd \<and>
    owed (snd (handle_events listen_fd events srv)) fd = [] \<and>
    (fd |\<in>| closing srv \<and> length (owed srv fd) < length (filter (takes_from fd) events) \<longrightarrow>
     fd |\<notin>| descriptors (snd (handle_events listen_fd events srv)))"
proof -
  have "drains fd (length (filter (takes_from fd) events)) srv (snd (handle_events listen_fd events srv))"
    using drains_events assms(1,2) by (simp add: waits_def)
  with assms(3) show ?thesis
    by (auto simp: drains_def leaving_def debt_def split: if_splits)
qed

theorem owed_is_delivered_witness:
  "let srv = \<lparr>srv_store = empty_store, srv_log = None, client_input = fmempty,
     client_output = fmap_of_list [(7, ''+OK''), (8, ''+PONG'')], closing = {|7|}, read_interest = {|7, 8|},
     write_interest = {|7, 8|}, wire = [], descriptors = {|7, 8|}, closed = []\<rparr>;
     took = [SendFails EINTR, Sent 1];
     events = [WriteEvent 7 took None, WriteEvent 8 [Sent 0] None, WriteEvent 7 took None,
       ReadEvent 7 (\<lambda>i. env_at 5) [Recv []] [SendBlocks None], WriteEvent 7 took None, WriteEvent 7 [Sent 9] None]
   in delivered (snd (handle_events 3 events srv)) 7 = ''+OK'' \<and>
      7 |\<notin>| descriptors (snd (handle_events 3 events srv))"
proof -
  let ?srv = "\<lparr>srv_store = empty_store, srv_log = None, client_input = fmempty,
     client_output = fmap_of_list [(7, ''+OK''), (8, ''+PONG'')], closing = {|7|}, read_interest = {|7, 8|},
     write_interest = {|7, 8|}, wire = [], descriptors = {|7, 8|}, closed = []\<rparr>"
  let ?took = "[SendFails EINTR, Sent 1]"
  let ?events = "[WriteEvent 7 ?took None, WriteEvent 8 [Sent 0] None, WriteEvent 7 ?took None,
       ReadEvent 7 (\<lambda>i. env_at 5) [Recv []] [SendBlocks None], WriteEvent 7 ?took None, WriteEvent 7 [Sent 9] None]"
  have waits: "pr_status (parse (buffer_of (client_input ?srv) 7)) = Incomplete"
    by (simp add: parse_empty)
  have calm: "list_all (leaves_be 7) ?events" by (simp add: persists_def)
  have owed: "owed ?srv 7 = ''+OK''" "delivered ?srv 7 = []"
    by (simp_all add: owed_def delivered_def buffer_of_def)
  have "length (filter (takes_from 7) ?events) = 4" by simp
  then show ?thesis
    using owed_is_delivered [OF waits calm, of 3] by (simp only: Let_def owed) simp
qed

end
