(* ===== verification/Server_Run.thy ===== *)
theory Server_Run
  imports Server
begin

text \<open>
  The program from its start to its exit: \<open>run_server\<close> of \<open>src/server.cpp\<close> and \<open>src/main.cpp\<close>.

  \<^item> Everything the program gets from the system in one run is a record \<open>World\<close>: the log file, the
    results of the calls that set up the listening socket and the kqueue, what each wait for
    events returned, and the order in which the loop at the end visits the map of clients.
  \<^item> A turn of the event loop is the result of one wait, and whether the handler of a shutdown
    signal ran before the loop looked at \<open>g_running\<close> again. When the turns are used up and the
    loop goes on, the program waits: the result is \<open>Serving\<close>.
\<close>

datatype wait_result = Ready "event list" | WaitFails errno

datatype turn = Turn wait_result bool

record World =
  clock :: "int \<Rightarrow> Env"
  file_at :: "string \<Rightarrow> log_file"
  openable :: "string \<Rightarrow> bool"
  socket_result :: int
  setsockopt_result :: int
  listener_flags :: fcntl_calls
  bind_result :: "32 word \<Rightarrow> 16 word \<Rightarrow> int"
  listen_result :: int
  kqueue_result :: int
  listener_registered :: kevent_result
  interrupted :: bool
  turns :: "turn list"
  visit_order :: "ClientBuffers \<Rightarrow> int list"

definition open_fd :: "int \<Rightarrow> Server \<Rightarrow> Server" where
  "open_fd fd srv = srv\<lparr>descriptors := finsert fd (descriptors srv)\<rparr>"

text \<open>The listening socket and the kqueue, or nothing if a call fails.\<close>

definition open_listener :: "World \<Rightarrow> 16 word \<Rightarrow> Server \<Rightarrow> (int \<times> int) option \<times> Server" where
  "open_listener world port srv =
     (let listen_fd = socket_result world in
      if listen_fd < 0 then (None, srv)
      else let srv = open_fd listen_fd srv in
        if setsockopt_result world < 0 then (None, close_fd listen_fd srv)
        else if \<not> set_non_blocking (listener_flags world) then (None, close_fd listen_fd srv)
        else if bind_result world INADDR_LOOPBACK port < 0 then (None, close_fd listen_fd srv)
        else if listen_result world < 0 then (None, close_fd listen_fd srv)
        else let kq = kqueue_result world in
          if kq < 0 then (None, close_fd listen_fd srv)
          else case update_event (listener_registered world) listen_fd EVFILT_READ (EV_ADD OR EV_ENABLE)
                 (open_fd kq srv) of (ok, srv) \<Rightarrow>
            if \<not> ok then (None, close_fd listen_fd (close_fd kq srv))
            else (Some (listen_fd, kq), srv))"

text \<open>The loop, given \<open>g_running\<close>. The first component is true when it still waits.\<close>

fun event_loop :: "int \<Rightarrow> bool \<Rightarrow> turn list \<Rightarrow> Server \<Rightarrow> bool \<times> Server" where
  "event_loop listen_fd False ts srv = (False, srv)"
| "event_loop listen_fd True [] srv = (True, srv)"
| "event_loop listen_fd True (Turn (WaitFails e) signalled # ts) srv =
     (if e = EINTR then event_loop listen_fd (\<not> signalled) ts srv else (False, srv))"
| "event_loop listen_fd True (Turn (Ready events) signalled # ts) srv =
     (case handle_events listen_fd events srv of (running, srv) \<Rightarrow>
        event_loop listen_fd (running \<and> \<not> signalled) ts srv)"

text \<open>\<open>Refused\<close> and \<open>Stopped\<close> are the returns of \<open>run_server\<close>, before and after the first socket is made.\<close>

datatype run_result = Refused string | Stopped int Server | Serving Server

definition run_server :: "World \<Rightarrow> 16 word \<Rightarrow> string \<Rightarrow> run_result" where
  "run_server world port log_path =
     (case startup (clock world) log_path (file_at world log_path) (openable world log_path) of
        Inl error \<Rightarrow> Refused error
      | Inr srv \<Rightarrow>
          (case open_listener world port srv of
             (None, srv) \<Rightarrow> Stopped 1 srv
           | (Some (listen_fd, kq), srv) \<Rightarrow>
               (case event_loop listen_fd (\<not> interrupted world) (turns world) srv of (waiting, srv) \<Rightarrow>
                  if waiting then Serving srv
                  else Stopped 0
                    (close_fd listen_fd (close_fd kq (shutdown (visit_order world (client_input srv)) srv))))))"

fun exit_code :: "run_result \<Rightarrow> int option" where
  "exit_code (Refused message) = Some 1"
| "exit_code (Stopped code srv) = Some code"
| "exit_code (Serving srv) = None"

definition redis_lite_main :: "World \<Rightarrow> string list \<Rightarrow> run_result" where
  "redis_lite_main world args =
     (case main_arguments args of
        None \<Rightarrow> Refused ''usage: redis-lite-server [log-path] [port]''
      | Some (log_path, port) \<Rightarrow> run_server world port log_path)"

end
