(* ===== verification/Server_Run_Properties.thy ===== *)
theory Server_Run_Properties
  imports Server_Run Server_Laws
begin

text \<open>
  The properties of a whole run of the server: what it holds of the system's resources when it
  returns, when it returns, and what it served before.
\<close>

subsection \<open>Descriptors\<close>

text \<open>Apart from the descriptors given, the server holds only those of its clients.\<close>

definition holds_only :: "int set \<Rightarrow> Server \<Rightarrow> bool" where
  "holds_only fds srv \<longleftrightarrow> fset (descriptors srv) \<subseteq> fds \<union> fset (fmdom (client_input srv))"

lemmas holds_defs = holds_only_def open_fd_def close_fd_def close_plain_def set_input_def set_output_def append_output_def

lemma holds_only_close_client: "holds_only fds srv \<Longrightarrow> holds_only fds (close_client fd srv)"
  by (auto simp: holds_only_def close_client_eq)

lemma holds_only_try_send:
  "try_send sends fd srv = (ok, srv') \<Longrightarrow> holds_only fds srv \<Longrightarrow> holds_only fds srv'"
  by (erule try_send_cases) (simp add: holds_defs)

lemma holds_only_snd_try_send: "holds_only fds srv \<Longrightarrow> holds_only fds (snd (try_send sends fd srv))"
  by (rule holds_only_try_send [OF prod.collapse [symmetric]])

lemma holds_only_buffers:
  "holds_only fds srv \<Longrightarrow> holds_only fds (set_input fd b srv)"
  "holds_only fds srv \<Longrightarrow> holds_only fds (set_output fd b srv)"
  "holds_only fds srv \<Longrightarrow> holds_only fds (append_output fd b srv)"
  "holds_only fds srv \<Longrightarrow> holds_only fds (srv\<lparr>srv_store := s, srv_log := log\<rparr>)"
  "holds_only fds srv \<Longrightarrow> holds_only fds (srv\<lparr>closing := c\<rparr>)"
  "holds_only fds srv \<Longrightarrow> holds_only fds (srv\<lparr>read_interest := c\<rparr>)"
  "holds_only fds srv \<Longrightarrow> holds_only fds (srv\<lparr>write_interest := c\<rparr>)"
  by (auto simp: holds_defs)

lemma holds_only_handle_readable:
  "handle_readable env received sends fd srv = (outcome, srv') \<Longrightarrow> holds_only fds srv \<Longrightarrow> holds_only fds srv'"
  by (auto simp: handle_readable_def Let_def holds_only_snd_try_send holds_only_buffers
      split: prod.splits recv_outcome.splits if_splits
      dest!: holds_only_try_send intro: holds_only_buffers)

lemma holds_only_accept_clients: "holds_only fds srv \<Longrightarrow> holds_only fds (accept_clients results srv)"
proof (induction results srv rule: accept_clients.induct)
  case (3 fd flags registered results srv)
  have "holds_only fds (close_plain fd (srv\<lparr>descriptors := finsert fd (descriptors srv)\<rparr>))"
    "holds_only fds (set_output fd [] (set_input fd [] (srv\<lparr>descriptors := finsert fd (descriptors srv),
       read_interest := finsert fd (read_interest srv)\<rparr>)))"
    using 3(4) by (auto simp: holds_defs)
  with 3(1) [OF refl] 3(2) [OF refl] 3(3) [OF refl] show ?case
    by (cases registered) (fastforce simp: Let_def)+
qed simp_all

lemma holds_only_handle_event: "holds_only fds srv \<Longrightarrow> holds_only fds (snd (handle_event listen_fd e srv))"
proof (cases e)
  case (ReadEvent fd env received sends)
  assume held: "holds_only fds srv"
  obtain outcome srv' where read: "handle_readable env received sends fd srv = (outcome, srv')"
    by (cases "handle_readable env received sends fd srv")
  from holds_only_handle_readable [OF this held] read ReadEvent show ?thesis
    by (cases outcome) (simp_all add: holds_only_close_client holds_only_buffers)
next
  case (WriteEvent fd sends unregistered)
  assume held: "holds_only fds srv"
  obtain ok srv' where send: "try_send sends fd srv = (ok, srv')" by (cases "try_send sends fd srv")
  have "holds_only fds srv'" by (rule holds_only_try_send [OF send held])
  with send WriteEvent show ?thesis
    by (cases unregistered) (simp_all add: Let_def holds_only_close_client holds_only_buffers)
qed (simp_all add: holds_only_accept_clients holds_only_close_client)

lemma holds_only_handle_events: "holds_only fds srv \<Longrightarrow> holds_only fds (snd (handle_events listen_fd es srv))"
proof (induction es arbitrary: srv)
  case (Cons e es)
  from Cons.IH [OF holds_only_handle_event [OF Cons.prems, of listen_fd e]] show ?case
    by (simp add: case_prod_beta)
qed simp

lemma holds_only_event_loop: "holds_only fds srv \<Longrightarrow> holds_only fds (snd (event_loop listen_fd running ts srv))"
proof (induction listen_fd running ts srv rule: event_loop.induct)
  case (4 listen_fd events signalled ts srv)
  from 4(1) [OF prod.collapse holds_only_handle_events [OF 4(2)]] show ?case
    by (simp add: case_prod_beta)
qed simp_all

lemma close_fd_descriptors [simp]: "descriptors (close_fd fd srv) = descriptors srv |-| {|fd|}"
  by (simp add: close_fd_def close_plain_def)

lemma fold_close_fd: "fset (descriptors (fold close_fd fds srv)) = fset (descriptors srv) - set fds"
  by (induction fds arbitrary: srv) auto

lemma shutdown_descriptors: "fset (descriptors (shutdown fds srv)) = fset (descriptors srv) - set fds"
  by (simp add: shutdown_def fold_close_fd)

lemma startup_fresh:
  "startup env log_path file can_open = Inr srv \<Longrightarrow>
   descriptors srv = {||} \<and> client_input srv = fmempty \<and> client_output srv = fmempty \<and> closing srv = {||} \<and> closed srv = []"
  by (auto simp: startup_def split: prod.splits if_splits)

lemma open_listener_None:
  assumes "open_listener world port srv = (None, srv')" "descriptors srv = {||}"
  shows "descriptors srv' = {||}"
  using assms
  by (cases "listener_registered world")
    (auto simp: open_listener_def open_fd_def Let_def fset_eq_iff split: if_splits prod.splits)

lemma open_listener_Some:
  assumes "open_listener world port srv = (Some (listen_fd, kq), srv')" "descriptors srv = {||}"
  shows "holds_only {listen_fd, kq} srv'"
  using assms
  by (cases "listener_registered world")
    (auto simp: open_listener_def open_fd_def Let_def holds_only_def split: if_splits prod.splits)

text \<open>Every call that makes the listening socket and the kqueue works.\<close>

definition listener_ready :: "World \<Rightarrow> 16 word \<Rightarrow> bool" where
  "listener_ready world port \<longleftrightarrow>
     0 \<le> socket_result world \<and> 0 \<le> setsockopt_result world \<and> set_non_blocking (listener_flags world) \<and>
     0 \<le> bind_result world INADDR_LOOPBACK port \<and> 0 \<le> listen_result world \<and> 0 \<le> kqueue_result world \<and>
     listener_registered world = None"

lemma open_listener_ready: "fst (open_listener world port srv) \<noteq> None \<longleftrightarrow> listener_ready world port"
  by (cases "listener_registered world") (simp_all add: open_listener_def listener_ready_def Let_def not_less)

text \<open>C8. A run of the server leaks no descriptor: whichever call fails while it starts, and whatever events,
  failures and signals the loop gets before it ends, when \<open>run_server\<close> returns every descriptor it
  opened, those of its clients, of the listening socket and of the kqueue, is closed; and it returns 0
  exactly if every call that starts it worked.\<close>

theorem server_leaks_nothing:
  assumes "\<forall>m. fset (fmdom m) \<subseteq> set (visit_order world m)"
    and "run_server world port log_path = Stopped code srv"
  shows "descriptors srv = {||} \<and> (code = 0 \<longleftrightarrow> listener_ready world port)"
proof -
  obtain start where start: "startup (clock world) log_path (file_at world log_path) (openable world log_path) = Inr start"
    using assms(2) by (auto simp: run_server_def split: sum.splits)
  note fresh = startup_fresh [OF start]
  obtain opened srv0 where listener: "open_listener world port start = (opened, srv0)"
    by (cases "open_listener world port start")
  show ?thesis
  proof (cases opened)
    case None
    with assms(2) start listener have "code = 1" "srv = srv0" by (auto simp: run_server_def)
    then show ?thesis
      using open_listener_None listener fresh None open_listener_ready [of world port start] by simp
  next
    case (Some fds)
    obtain listen_fd kq where fds: "fds = (listen_fd, kq)" by (cases fds)
    obtain waiting last where loop: "event_loop listen_fd (\<not> interrupted world) (turns world) srv0 = (waiting, last)"
      by (cases "event_loop listen_fd (\<not> interrupted world) (turns world) srv0")
    have "holds_only {listen_fd, kq} srv0"
      using open_listener_Some [of world port start listen_fd kq srv0] listener fresh Some fds by simp
    from holds_only_event_loop [OF this] loop have held: "holds_only {listen_fd, kq} last" by (metis snd_conv)
    have result: "code = 0"
      "srv = close_fd listen_fd (close_fd kq (shutdown (visit_order world (client_input last)) last))"
      using assms(2) start listener Some fds loop by (auto simp: run_server_def split: if_splits)
    have "fset (descriptors last) \<subseteq> {listen_fd, kq} \<union> set (visit_order world (client_input last))"
      using held assms(1) unfolding holds_only_def by blast
    then have "descriptors srv = {||}"
      by (auto simp: result(2) fset_eq_iff shutdown_descriptors simp flip: fset_inject)
    then show ?thesis using result(1) open_listener_ready [of world port start] listener Some by simp
  qed
qed

text \<open>A quiet world: every call works, and one client comes, sends a request and does not leave.\<close>

definition one_client :: World where
  "one_client = \<lparr>clock = \<lambda>n. env_at 5, file_at = \<lambda>path. Absent, openable = \<lambda>path. True, socket_result = 3,
     setsockopt_result = 0, listener_flags = Fcntl 2 (\<lambda>flags. 0), bind_result = \<lambda>address port. 0,
     listen_result = 0, kqueue_result = 4, listener_registered = None, interrupted = False,
     turns = [Turn (Ready [AcceptEvent [Accepted 7 (Fcntl 2 (\<lambda>flags. 0)) None]]) False, Turn (WaitFails EINTR) True],
     visit_order = (\<lambda>m. sorted_list_of_fset (fmdom m))\<rparr>"

lemma one_client_ready: "listener_ready one_client 6379"
  by (simp add: listener_ready_def one_client_def)

lemma one_client_starts:
  "startup (clock one_client) ''log'' (file_at one_client ''log'') (openable one_client ''log'') = Inr
     \<lparr>srv_store = empty_store, srv_log = Some [], client_input = fmempty, client_output = fmempty, closing = {||},
       read_interest = {||}, write_interest = {||}, wire = [], descriptors = {||}, closed = []\<rparr>"
  by (simp add: one_client_def startup_def replay_log_def open_log_def)

theorem server_leaks_nothing_witness:
  "\<exists>srv. run_server one_client 6379 ''log'' = Stopped 0 srv \<and> descriptors srv = {||}"
proof -
  have order: "\<forall>m. fset (fmdom m) \<subseteq> set (visit_order one_client m)"
    by (simp add: one_client_def)
  obtain code srv where run: "run_server one_client 6379 ''log'' = Stopped code srv"
    unfolding run_server_def one_client_starts
    by (auto simp: one_client_def open_listener_def open_fd_def)
  from server_leaks_nothing [OF order run] run one_client_ready show ?thesis by simp
qed

subsection \<open>Reachable states\<close>

text \<open>The states of a server that is up: the one it starts its loop in, and those the events lead to, each with
  the clients for which a write registration has failed since they connected.\<close>

inductive reachable :: "World \<Rightarrow> 16 word \<Rightarrow> string \<Rightarrow> int \<Rightarrow> Server \<Rightarrow> int fset \<Rightarrow> bool"
  for world :: World and port :: "16 word" and log_path :: string and listen_fd :: int
where
  started: "startup (clock world) log_path (file_at world log_path) (openable world log_path) = Inr srv \<Longrightarrow>
    open_listener world port srv = (Some (listen_fd, kq), srv') \<Longrightarrow> reachable world port log_path listen_fd srv' {||}"
| handled: "reachable world port log_path listen_fd srv stuck \<Longrightarrow> event_ok e \<Longrightarrow>
    reachable world port log_path listen_fd (snd (handle_event listen_fd e srv)) (stuck_after listen_fd e srv stuck)"

text \<open>The events of a turn lead from reachable states to reachable ones. If none of them meets a failing
  registration, no client is stuck.\<close>

definition never_stuck :: "event \<Rightarrow> bool" where
  "never_stuck e \<longleftrightarrow> unarmed e = {||}"

lemma reachable_events:
  "reachable world port log_path listen_fd srv stuck \<Longrightarrow> list_all event_ok es \<Longrightarrow>
   \<exists>stuck'. reachable world port log_path listen_fd (snd (handle_events listen_fd es srv)) stuck' \<and>
     (list_all never_stuck es \<and> stuck = {||} \<longrightarrow> stuck' = {||})"
proof (induction es arbitrary: srv stuck)
  case (Cons e es)
  have one: "reachable world port log_path listen_fd (snd (handle_event listen_fd e srv)) (stuck_after listen_fd e srv stuck)"
    using Cons.prems by (simp add: handled)
  from Cons.IH [OF this] Cons.prems(2) obtain stuck' where
    "reachable world port log_path listen_fd (snd (handle_events listen_fd es (snd (handle_event listen_fd e srv)))) stuck'"
    "list_all never_stuck es \<and> stuck_after listen_fd e srv stuck = {||} \<longrightarrow> stuck' = {||}" by auto
  moreover have "never_stuck e \<and> stuck = {||} \<longrightarrow> stuck_after listen_fd e srv stuck = {||}"
    by (simp add: never_stuck_def stuck_after_def)
  ultimately show ?case by (auto simp: case_prod_beta)
qed auto

fun turn_all :: "(event \<Rightarrow> bool) \<Rightarrow> turn \<Rightarrow> bool" where
  "turn_all good (Turn (Ready events) signalled) \<longleftrightarrow> list_all good events"
| "turn_all good (Turn (WaitFails e) signalled) \<longleftrightarrow> True"

lemma reachable_event_loop:
  "reachable world port log_path listen_fd srv stuck \<Longrightarrow> list_all (turn_all event_ok) ts \<Longrightarrow>
   \<exists>stuck'. reachable world port log_path listen_fd (snd (event_loop listen_fd running ts srv)) stuck' \<and>
     (list_all (turn_all never_stuck) ts \<and> stuck = {||} \<longrightarrow> stuck' = {||})"
proof (induction listen_fd running ts srv arbitrary: stuck rule: event_loop.induct)
  case (4 listen_fd events signalled ts srv)
  obtain stuck1 where one: "reachable world port log_path listen_fd (snd (handle_events listen_fd events srv)) stuck1"
    "list_all never_stuck events \<and> stuck = {||} \<longrightarrow> stuck1 = {||}"
    using reachable_events [OF 4(2)] 4(3) by auto
  from 4(1) [OF prod.collapse this(1)] 4(3) one(2) show ?case by (auto simp: case_prod_beta)
qed auto

lemma serving_reachable:
  assumes "run_server world port log_path = Serving srv" "list_all (turn_all event_ok) (turns world)"
  shows "\<exists>listen_fd stuck. reachable world port log_path listen_fd srv stuck \<and>
    (list_all (turn_all never_stuck) (turns world) \<longrightarrow> stuck = {||})"
proof -
  obtain start where start: "startup (clock world) log_path (file_at world log_path) (openable world log_path) = Inr start"
    using assms(1) by (auto simp: run_server_def split: sum.splits)
  obtain listen_fd kq srv0 where listener: "open_listener world port start = (Some (listen_fd, kq), srv0)"
    using assms(1) start by (auto simp: run_server_def split: prod.splits option.splits)
  have "srv = snd (event_loop listen_fd (\<not> interrupted world) (turns world) srv0)"
    using assms(1) start listener by (auto simp: run_server_def split: prod.splits if_splits)
  with reachable_event_loop [OF started [OF start listener] assms(2)] show ?thesis by blast
qed

lemma startup_ok:
  assumes "\<forall>n. env_ok (env n)" "startup env log_path file can_open = Inr srv"
  shows "server_ok {||} srv"
proof -
  have loop: "store_ok l" if "replay_loop env limit n s empty_store = Inr l" for limit n s l
    using replay_loop_ok [OF _ that] assms(1) by simp
  have "store_ok (srv_store srv)"
    using assms(2)
    by (auto simp: startup_def replay_log_def split: prod.splits if_splits log_file.splits sum.splits dest!: loop)
  moreover have "client_input srv = fmempty" "client_output srv = fmempty" "closing srv = {||}"
    using assms(2) by (auto simp: startup_def split: prod.splits if_splits)
  ultimately show ?thesis by (simp add: server_ok_iff owed_def)
qed

lemma open_listener_ok:
  assumes "open_listener world port srv = (Some fds, srv')" "server_ok stuck srv"
  shows "server_ok stuck srv'"
proof -
  obtain i d where "srv' = srv\<lparr>descriptors := d, read_interest := i\<rparr>"
    using assms(1)
    by (cases "listener_registered world") (auto simp: open_listener_def open_fd_def Let_def split: if_splits prod.splits)
  with assms(2) show ?thesis by (simp add: server_ok_iff owed_def)
qed

text \<open>C5. In every state a server reaches, from a start on any log and through any events whose clocks are
  proper: no input buffer is above the limit; the store satisfies its invariant; and bytes owed to a
  client have write interest registered, and so has every client that is to be closed once its replies
  are sent, unless the system refused to register the write filter for this client since it connected:
  \<open>try_send\<close> ignores that refusal.\<close>

theorem server_ok_always:
  assumes "reachable world port log_path listen_fd srv stuck" "\<forall>n. env_ok (clock world n)"
  shows "server_ok stuck srv"
  using assms(1)
proof (induction rule: reachable.induct)
  case (started srv kq srv')
  from startup_ok [OF assms(2) started(1)] open_listener_ok [OF started(2)] show ?case by blast
next
  case (handled srv stuck e)
  from handle_event_ok [OF handled.IH handled.hyps(2)] show ?case .
qed

theorem server_ok_always_witness:
  "\<exists>srv. run_server (one_client\<lparr>turns := [Turn (Ready [AcceptEvent [Accepted 7 (Fcntl 2 (\<lambda>flags. 0)) None],
       ReadEvent 7 (\<lambda>i. env_at 5) [Recv ''?''] [SendBlocks None]]) False]\<rparr>) 6379 ''log'' = Serving srv \<and> server_ok {||} srv"
proof -
  let ?events = "[AcceptEvent [Accepted 7 (Fcntl 2 (\<lambda>flags. 0)) None], ReadEvent 7 (\<lambda>i. env_at 5) [Recv ''?''] [SendBlocks None]]"
  let ?world = "one_client\<lparr>turns := [Turn (Ready ?events) False]\<rparr>"
  have start: "startup (clock ?world) ''log'' (file_at ?world ''log'') (openable ?world ''log'') = Inr
     \<lparr>srv_store = empty_store, srv_log = Some [], client_input = fmempty, client_output = fmempty, closing = {||},
       read_interest = {||}, write_interest = {||}, wire = [], descriptors = {||}, closed = []\<rparr>"
    using one_client_starts by simp
  have world: "turns ?world = [Turn (Ready ?events) False]" "\<not> interrupted ?world" by (simp_all add: one_client_def)
  obtain srv0 where listener: "open_listener ?world 6379
     \<lparr>srv_store = empty_store, srv_log = Some [], client_input = fmempty, client_output = fmempty, closing = {||},
       read_interest = {||}, write_interest = {||}, wire = [], descriptors = {||}, closed = []\<rparr> = (Some (3, 4), srv0)"
    by (simp add: one_client_def open_listener_def open_fd_def)
  obtain running srv1 where events: "handle_events 3 ?events srv0 = (running, srv1)" by (metis surj_pair)
  then have "running" by (auto simp: case_prod_beta)
  then have "event_loop 3 True [Turn (Ready ?events) False] srv0 = (True, srv1)"
    by (simp only: event_loop.simps events prod.case) simp
  then have "\<exists>srv. run_server ?world 6379 ''log'' = Serving srv"
    unfolding run_server_def start listener world by (simp only: sum.case prod.case option.case listener world) simp
  then obtain srv where run: "run_server ?world 6379 ''log'' = Serving srv" by blast
  have "list_all (turn_all event_ok) (turns ?world)" "list_all (turn_all never_stuck) (turns ?world)"
    by (simp_all add: never_stuck_def env_ok_def env_at_def llong_defs)
  with serving_reachable [OF run] obtain listen_fd where "reachable ?world 6379 ''log'' listen_fd srv {||}" by blast
  moreover have "\<forall>n. env_ok (clock ?world n)" by (simp add: one_client_def env_ok_def env_at_def llong_defs)
  ultimately show ?thesis using server_ok_always run by blast
qed

subsection \<open>The end\<close>

lemma event_loop_signalled:
  "event_loop listen_fd running (before @ Turn result True # after) srv =
     event_loop listen_fd running (before @ [Turn result True]) srv \<and>
   \<not> fst (event_loop listen_fd running (before @ [Turn result True]) srv)"
proof (induction listen_fd running before srv rule: event_loop.induct)
  case (2 listen_fd srv)
  then show ?case by (cases result) (simp_all add: case_prod_beta)
next
  case (4 listen_fd events signalled ts srv)
  from 4 [OF prod.collapse] show ?case by (simp add: case_prod_beta)
qed simp_all

lemma open_listener_turns:
  "open_listener (world\<lparr>turns := ts\<rparr>) port srv = open_listener world port srv"
  by (cases world) (simp add: open_listener_def Let_def)

text \<open>C16. A shutdown signal ends a server that is up: the turn of the loop in which its handler runs is the last
  one, whatever the wait of that turn returned and whatever was to come, and \<open>run_server\<close> returns 0.\<close>

theorem shutdown_signal_ends:
  assumes "startup (clock world) log_path (file_at world log_path) (openable world log_path) = Inr start"
    and "listener_ready world port"
    and "turns world = before @ Turn result True # after"
  shows "\<exists>srv. run_server world port log_path = Stopped 0 srv \<and>
    run_server (world\<lparr>turns := before @ [Turn result True]\<rparr>) port log_path = Stopped 0 srv"
proof -
  obtain listen_fd kq srv0 where listener: "open_listener world port start = (Some (listen_fd, kq), srv0)"
    using open_listener_ready [of world port start] assms(2) by (metis not_Some_eq prod.collapse)
  moreover have "open_listener (world\<lparr>turns := ts\<rparr>) port start = open_listener world port start" for ts
    by (rule open_listener_turns)
  ultimately show ?thesis
    using event_loop_signalled [of listen_fd "\<not> interrupted world" before result after srv0] assms(1,3)
    by (simp add: run_server_def case_prod_beta)
qed

theorem shutdown_signal_ends_witness:
  "\<exists>srv. run_server (one_client\<lparr>turns := [Turn (Ready []) True, Turn (WaitFails OtherError) False]\<rparr>) 6379 ''log'' =
     Stopped 0 srv"
proof -
  let ?world = "one_client\<lparr>turns := [Turn (Ready []) True, Turn (WaitFails OtherError) False]\<rparr>"
  have "startup (clock ?world) ''log'' (file_at ?world ''log'') (openable ?world ''log'') = Inr
     \<lparr>srv_store = empty_store, srv_log = Some [], client_input = fmempty, client_output = fmempty, closing = {||},
       read_interest = {||}, write_interest = {||}, wire = [], descriptors = {||}, closed = []\<rparr>"
    using one_client_starts by simp
  moreover have "listener_ready ?world 6379"
    using one_client_ready by (simp add: listener_ready_def)
  moreover have "turns ?world = [] @ Turn (Ready []) True # [Turn (WaitFails OtherError) False]" by simp
  ultimately show ?thesis using shutdown_signal_ends by blast
qed

end
