(* ===== verification/Bench.thy ===== *)
theory Bench
  imports Server
begin

text \<open>
  The benchmark client, \<open>src/benchmarks/bench.cpp\<close>.

  \<^item> The socket is blocking: \<open>send_all\<close> and \<open>await_replies\<close> take the results of their calls in order,
    and the value \<open>None\<close> means that the results are used up and the call waits.
  \<^item> The loop of \<open>seed\<close> and \<open>run_pipelined\<close> may go on for ever: it is a partial function, and what one
    batch does to the connection is its argument \<open>exchange\<close>. The times are not modelled: what stays
    of the throughput a run returns is whether it got to the end.
\<close>

record Connection =
  conn_fd :: int
  incoming :: string
  parsed :: nat

definition encode :: "string list \<Rightarrow> string" where
  "encode arguments =
     ''*'' @ to_string (int (length arguments)) @ crlf @
     concat (map (\<lambda>argument. ''$'' @ to_string (int (length argument)) @ crlf @ argument @ crlf) arguments)"

subsection \<open>One batch\<close>

text \<open>The result, the bytes sent, and the results not yet used.\<close>

fun send_all :: "send_result list \<Rightarrow> string \<Rightarrow> (bool \<times> string \<times> send_result list) option" where
  "send_all results [] = Some (True, [], results)"
| "send_all [] bytes = None"
| "send_all (Sent n # results) bytes =
     (case send_all results (drop n bytes) of
        None \<Rightarrow> None
      | Some (ok, sent, results) \<Rightarrow> Some (ok, take n bytes @ sent, results))"
| "send_all (SendFails e # results) bytes =
     (if e = EINTR then send_all results bytes else Some (False, [], results))"
| "send_all (SendBlocks result # results) bytes = Some (False, [], results)"

text \<open>The inner loop of \<open>await_replies\<close>: it takes replies off the buffer, at most as many as wanted.\<close>

function consume :: "int \<Rightarrow> Connection \<Rightarrow> bool \<times> int \<times> Connection" where
  "consume wanted connection =
     (if 0 < wanted then
        let remaining = drop (parsed connection) (incoming connection) in
        if remaining = [] then (True, wanted, connection)
        else let result = parse remaining in
          case pr_status result of
            Incomplete \<Rightarrow> (True, wanted, connection)
          | Malformed \<Rightarrow> (False, wanted, connection)
          | Ok \<Rightarrow> consume (wanted - 1) (connection\<lparr>parsed := parsed connection + pr_consumed result\<rparr>)
      else (True, wanted, connection))"
  by pat_completeness auto
termination
  by (relation "measure (\<lambda>(wanted, connection). nat wanted)") auto

declare consume.simps [simp del]

text \<open>What was parsed is dropped from the buffer before the next \<open>recv\<close>.\<close>

definition compact :: "Connection \<Rightarrow> Connection" where
  "compact connection =
     (if 0 < parsed connection
      then connection\<lparr>incoming := drop (parsed connection) (incoming connection), parsed := 0\<rparr>
      else connection)"

fun await_replies ::
  "recv_result list \<Rightarrow> int \<Rightarrow> Connection \<Rightarrow> (bool \<times> Connection \<times> recv_result list) option"
where
  "await_replies results wanted connection =
     (if 0 < wanted then
        case consume wanted connection of (ok, wanted, connection) \<Rightarrow>
          if \<not> ok then Some (False, connection, results)
          else let connection = compact connection in
            if wanted = 0 then Some (True, connection, results)
            else case results of
              [] \<Rightarrow> None
            | Recv chunk # results \<Rightarrow>
                if chunk \<noteq> []
                then await_replies results wanted (connection\<lparr>incoming := incoming connection @ chunk\<rparr>)
                else Some (False, connection, results)
            | RecvFails e # results \<Rightarrow>
                if e = EINTR then await_replies results wanted connection
                else Some (False, connection, results)
      else Some (True, connection, results))"

declare await_replies.simps [simp del]

text \<open>A connection with the results of its calls to come, and all the bytes sent on it.\<close>

type_synonym session = "Connection \<times> send_result list \<times> recv_result list \<times> string"

fun exchange :: "session \<Rightarrow> string \<Rightarrow> int \<Rightarrow> (bool \<times> session) option" where
  "exchange (connection, sends, receives, sent) payload wanted =
     (case send_all sends payload of
        None \<Rightarrow> None
      | Some (ok, bytes, sends) \<Rightarrow>
          if \<not> ok then Some (False, connection, sends, receives, sent @ bytes)
          else case await_replies receives wanted connection of
            None \<Rightarrow> None
          | Some (ok, connection, receives) \<Rightarrow> Some (ok, connection, sends, receives, sent @ bytes))"

subsection \<open>Runs\<close>

text \<open>The request of a benchmark for a prefix and a number.\<close>

type_synonym RequestFor = "string \<Rightarrow> int \<Rightarrow> string"

definition payload_of :: "RequestFor \<Rightarrow> string \<Rightarrow> int \<Rightarrow> int \<Rightarrow> string" where
  "payload_of req prefix sent batch = concat (map (\<lambda>i. req prefix (sent + i)) [0..batch - 1])"

text \<open>The loop of \<open>seed\<close> and of \<open>run_pipelined\<close>, which are the same, from \<open>sent\<close> on. The numbers are exact: with a
  depth from 0 on they stay between 0 and \<open>ops\<close>, so the \<open>int\<close>s of the source hold them; with a depth below 0
  \<open>sent\<close> falls without bound, and where \<open>sent\<close> or \<open>ops - sent\<close> leaves the range of \<open>int\<close> the source has no
  defined behaviour and the model does not describe it.\<close>

partial_function (option) batches ::
  "('s \<Rightarrow> string \<Rightarrow> int \<Rightarrow> (bool \<times> 's) option) \<Rightarrow> RequestFor \<Rightarrow> string \<Rightarrow> int \<Rightarrow> int \<Rightarrow> int \<Rightarrow> 's \<Rightarrow> (bool \<times> 's) option"
where
  "batches talk req prefix ops depth sent s =
     (if sent < ops then
        let batch = min depth (ops - sent) in
        Option.bind (talk s (payload_of req prefix sent batch) batch) (\<lambda>(ok, s).
          if \<not> ok then Some (False, s)
          else batches talk req prefix ops depth (sent + batch) s)
      else Some (True, s))"

definition seed ::
  "('s \<Rightarrow> string \<Rightarrow> int \<Rightarrow> (bool \<times> 's) option) \<Rightarrow> RequestFor \<Rightarrow> string \<Rightarrow> int \<Rightarrow> int \<Rightarrow> 's \<Rightarrow> (bool \<times> 's) option"
where
  "seed talk req prefix ops depth s = batches talk req prefix ops depth 0 s"

definition run_pipelined ::
  "('s \<Rightarrow> string \<Rightarrow> int \<Rightarrow> (bool \<times> 's) option) \<Rightarrow> RequestFor \<Rightarrow> string \<Rightarrow> int \<Rightarrow> int \<Rightarrow> 's \<Rightarrow> (bool \<times> 's) option"
where
  "run_pipelined talk req prefix ops depth s = batches talk req prefix ops depth 0 s"

text \<open>The loop of \<open>run_sequential\<close> from \<open>i\<close> on\<close>

partial_function (option) one_by_one ::
  "('s \<Rightarrow> string \<Rightarrow> int \<Rightarrow> (bool \<times> 's) option) \<Rightarrow> RequestFor \<Rightarrow> string \<Rightarrow> int \<Rightarrow> int \<Rightarrow> 's \<Rightarrow> (bool \<times> 's) option"
where
  "one_by_one talk req prefix ops i s =
     (if i < ops then
        Option.bind (talk s (req prefix i) 1) (\<lambda>(ok, s).
          if \<not> ok then Some (False, s) else one_by_one talk req prefix ops (i + 1) s)
      else Some (True, s))"

definition run_sequential ::
  "('s \<Rightarrow> string \<Rightarrow> int \<Rightarrow> (bool \<times> 's) option) \<Rightarrow> RequestFor \<Rightarrow> string \<Rightarrow> int \<Rightarrow> 's \<Rightarrow> (bool \<times> 's) option"
where
  "run_sequential talk req prefix ops s = one_by_one talk req prefix ops 0 s"

subsection \<open>Options and benchmarks\<close>

record Options =
  opt_host :: string
  opt_port :: "16 word"
  opt_ops :: int
  opt_pipeline :: int
  opt_value_size :: "64 word"
  opt_only :: string

definition default_options :: Options where
  "default_options =
     \<lparr>opt_host = ''127.0.0.1'', opt_port = 6379, opt_ops = 20000, opt_pipeline = 64, opt_value_size = 16, opt_only = []\<rparr>"

datatype option_error = UnknownOption string | StoiThrows

text \<open>\<open>std::stoi\<close>: the number at the front of a string, or an exception that nobody catches.\<close>

definition stoi :: "string \<Rightarrow> int option" where
  "stoi digits =
     (case strtol digits of (number, used) \<Rightarrow>
        if used = 0 \<or> number < - (2 ^ 31) \<or> 2 ^ 31 - 1 < number then None else Some number)"

fun parse_options :: "string list \<Rightarrow> Options \<Rightarrow> option_error + Options" where
  "parse_options [] options = Inr options"
| "parse_options [opt] options = Inl (UnknownOption opt)"
| "parse_options (opt # argument # args) options =
     (if opt = ''--host'' then parse_options args (options\<lparr>opt_host := argument\<rparr>)
      else if opt = ''--port'' then
        (case stoi argument of None \<Rightarrow> Inl StoiThrows
         | Some n \<Rightarrow> parse_options args (options\<lparr>opt_port := word_of_int n\<rparr>))
      else if opt = ''--ops'' then
        (case stoi argument of None \<Rightarrow> Inl StoiThrows
         | Some n \<Rightarrow> parse_options args (options\<lparr>opt_ops := n\<rparr>))
      else if opt = ''--pipeline'' then
        (case stoi argument of None \<Rightarrow> Inl StoiThrows
         | Some n \<Rightarrow> parse_options args (options\<lparr>opt_pipeline := n\<rparr>))
      else if opt = ''--value-size'' then
        (case stoi argument of None \<Rightarrow> Inl StoiThrows
         | Some n \<Rightarrow> parse_options args (options\<lparr>opt_value_size := word_of_int n\<rparr>))
      else if opt = ''--only'' then parse_options args (options\<lparr>opt_only := argument\<rparr>)
      else Inl (UnknownOption opt))"

record Benchmark =
  bench_name :: string
  bench_request :: RequestFor
  bench_setup :: "RequestFor option"

definition build_benchmarks :: "Options \<Rightarrow> Benchmark list" where
  "build_benchmarks options =
     (let val = replicate (unat (opt_value_size options)) (CHR ''x'') in
      [\<lparr>bench_name = ''SET'',
        bench_request = (\<lambda>p i. encode [''SET'', ''key:'' @ p @ to_string i, val]),
        bench_setup = None\<rparr>,
       \<lparr>bench_name = ''GET'',
        bench_request = (\<lambda>p i. encode [''GET'', ''key:'' @ p @ to_string i]),
        bench_setup = Some (\<lambda>p i. encode [''SET'', ''key:'' @ p @ to_string i, val])\<rparr>,
       \<lparr>bench_name = ''DEL'',
        bench_request = (\<lambda>p i. encode [''DEL'', ''del:'' @ p @ to_string i]),
        bench_setup = Some (\<lambda>p i. encode [''SET'', ''del:'' @ p @ to_string i, val])\<rparr>,
       \<lparr>bench_name = ''LPUSH'',
        bench_request = (\<lambda>p i. encode [''LPUSH'', ''list:'' @ p @ to_string (i mod 64), val]),
        bench_setup = None\<rparr>,
       \<lparr>bench_name = ''LPOP'',
        bench_request = (\<lambda>p i. encode [''LPOP'', ''poplist:'' @ p @ to_string (i mod 64)]),
        bench_setup = Some (\<lambda>p i. encode [''LPUSH'', ''poplist:'' @ p @ to_string (i mod 64), val])\<rparr>,
       \<lparr>bench_name = ''HSET'',
        bench_request = (\<lambda>p i. encode [''HSET'', ''hash:'' @ p, ''field:'' @ to_string i, val]),
        bench_setup = None\<rparr>,
       \<lparr>bench_name = ''HGET'',
        bench_request = (\<lambda>p i. encode [''HGET'', ''hash:'' @ p, ''field:'' @ to_string i]),
        bench_setup = Some (\<lambda>p i. encode [''HSET'', ''hash:'' @ p, ''field:'' @ to_string i, val])\<rparr>,
       \<lparr>bench_name = ''SADD'',
        bench_request = (\<lambda>p i. encode [''SADD'', ''set:'' @ p, ''member:'' @ to_string i]),
        bench_setup = None\<rparr>,
       \<lparr>bench_name = ''SISMEMBER'',
        bench_request = (\<lambda>p i. encode [''SISMEMBER'', ''set:'' @ p, ''member:'' @ to_string i]),
        bench_setup = Some (\<lambda>p i. encode [''SADD'', ''set:'' @ p, ''member:'' @ to_string i])\<rparr>])"

subsection \<open>The program\<close>

text \<open>The results of the calls that connect. \<open>inet_pton\<close> reads the address; the result of \<open>setsockopt\<close> is ignored.\<close>

record ConnectCalls =
  bc_socket :: int
  bc_inet_pton :: "string \<Rightarrow> (32 word) option"
  bc_connect :: "32 word \<Rightarrow> 16 word \<Rightarrow> int"

text \<open>The connection, whether it is open, and the descriptors closed.\<close>

definition open_connection :: "ConnectCalls \<Rightarrow> Options \<Rightarrow> bool \<times> Connection \<times> int list" where
  "open_connection calls options =
     (let fd = bc_socket calls;
          connection = \<lparr>conn_fd = fd, incoming = [], parsed = 0\<rparr> in
      if fd < 0 then (False, connection, [])
      else case bc_inet_pton calls (opt_host options) of
        None \<Rightarrow> (False, connection\<lparr>conn_fd := -1\<rparr>, [fd])
      | Some address \<Rightarrow>
          if bc_connect calls address (opt_port options) < 0
          then (False, connection\<lparr>conn_fd := -1\<rparr>, [fd])
          else (True, connection, []))"

text \<open>The line of a benchmark: its name and whether each run got to the end (it prints 0 if not). Nothing is
  printed when seeding fails, and the program ends.\<close>

type_synonym row = "string \<times> bool \<times> bool"

definition run_benchmark ::
  "('s \<Rightarrow> string \<Rightarrow> int \<Rightarrow> (bool \<times> 's) option) \<Rightarrow> Options \<Rightarrow> Benchmark \<Rightarrow> 's \<Rightarrow> (row option \<times> 's) option"
where
  "run_benchmark talk options benchmark s =
     (let seeded = (\<lambda>prefix s. case bench_setup benchmark of
            None \<Rightarrow> Some (True, s)
          | Some prepare \<Rightarrow> seed talk prepare prefix (opt_ops options) (opt_pipeline options) s) in
      Option.bind (seeded ''seq:'' s) (\<lambda>(ok, s).
      if \<not> ok then Some (None, s)
      else Option.bind (run_sequential talk (bench_request benchmark) ''seq:'' (opt_ops options) s) (\<lambda>(sequential, s).
      Option.bind (seeded ''pipe:'' s) (\<lambda>(ok, s).
      if \<not> ok then Some (None, s)
      else Option.bind (run_pipelined talk (bench_request benchmark) ''pipe:'' (opt_ops options) (opt_pipeline options) s)
        (\<lambda>(pipelined, s). Some (Some (bench_name benchmark, sequential, pipelined), s))))))"

text \<open>The exit code and the lines printed\<close>

fun run_benchmarks ::
  "('s \<Rightarrow> string \<Rightarrow> int \<Rightarrow> (bool \<times> 's) option) \<Rightarrow> Options \<Rightarrow> Benchmark list \<Rightarrow> 's \<Rightarrow> (int \<times> row list) option"
where
  "run_benchmarks talk options [] s = Some (0, [])"
| "run_benchmarks talk options (benchmark # benchmarks) s =
     (if opt_only options \<noteq> [] \<and> opt_only options \<noteq> bench_name benchmark
      then run_benchmarks talk options benchmarks s
      else Option.bind (run_benchmark talk options benchmark s) (\<lambda>(row, s).
        case row of
          None \<Rightarrow> Some (1, [])
        | Some line \<Rightarrow>
            Option.bind (run_benchmarks talk options benchmarks s) (\<lambda>(code, rows). Some (code, line # rows))))"

definition ping :: RequestFor where
  "ping prefix i = encode [''PING'']"

text \<open>An exception of \<open>stoi\<close> ends the program without an exit code of its own: it aborts.\<close>

datatype bench_result = Aborts | Exits int "row list"

definition bench_main ::
  "ConnectCalls \<Rightarrow> send_result list \<Rightarrow> recv_result list \<Rightarrow> string list \<Rightarrow> bench_result option"
where
  "bench_main calls sends receives args =
     (case parse_options args default_options of
        Inl StoiThrows \<Rightarrow> Some Aborts
      | Inl (UnknownOption opt) \<Rightarrow> Some (Exits 1 [])
      | Inr options \<Rightarrow>
          (case open_connection calls options of (ok, connection, shut) \<Rightarrow>
             if \<not> ok then Some (Exits 1 [])
             else Option.bind
               (run_pipelined exchange ping ''warmup'' 2000 (opt_pipeline options) (connection, sends, receives, []))
               (\<lambda>(ok, s). map_option (\<lambda>(code, rows). Exits code rows)
                 (run_benchmarks exchange options (build_benchmarks options) s))))"

end
