(* ===== verification/Bench_Properties.thy ===== *)
theory Bench_Properties
  imports Bench Server_Laws
begin

text \<open>
  The benchmark client and the server: the client speaks the protocol, its reply loop finds the
  replies in whatever pieces they arrive, and its runs end.
\<close>

subsection \<open>Requests\<close>

text \<open>The client's own encoder agrees with the serializer of the server's library: the bytes of a request
  are those of the array of its words, so the server reads just these words.\<close>

lemma encode_serializes: "encode words = serialize (request words)"
  by (simp add: encode_def request_def make_defs comp_def)

subsection \<open>Replies\<close>

definition left_over :: "Connection \<Rightarrow> string" where
  "left_over c = drop (parsed c) (incoming c)"

lemma left_over_skip: "left_over (c\<lparr>parsed := parsed c + n\<rparr>) = drop n (left_over c)"
  by (simp add: left_over_def add.commute)

text \<open>The bytes that the results still to come bring.\<close>

definition arriving :: "recv_result list \<Rightarrow> string" where
  "arriving results = concat (map (\<lambda>r. case r of Recv chunk \<Rightarrow> chunk | RecvFails e \<Rightarrow> []) results)"

lemma arriving_simps [simp]:
  "arriving [] = []" "arriving (Recv chunk # rs) = chunk @ arriving rs" "arriving (RecvFails e # rs) = arriving rs"
  by (simp_all add: arriving_def)

definition arrives :: "recv_result \<Rightarrow> bool" where
  "arrives r \<longleftrightarrow> (case r of Recv chunk \<Rightarrow> chunk \<noteq> [] | RecvFails e \<Rightarrow> e = EINTR)"

lemma arrives_simps [simp]: "arrives (Recv chunk) \<longleftrightarrow> chunk \<noteq> []" "arrives (RecvFails e) \<longleftrightarrow> e = EINTR"
  by (simp_all add: arrives_def)

text \<open>A first part of a value's bytes is incomplete.\<close>

lemma parse_inside:
  assumes "within_depth v" "buf @ more_bytes = serialize v @ rest" "length buf < length (serialize v)"
  shows "pr_status (parse buf) = Incomplete"
proof -
  have "buf = take (length buf) (serialize v @ rest)" by (simp flip: assms(2))
  with resp.step_inside [OF resp.step_encode [OF assms(1), of rest] assms(3)] show ?thesis
    by (simp add: parse_outcome_More_iff)
qed

lemma consume_replies:
  "list_all within_depth replies \<Longrightarrow> left_over c @ future = concat (map serialize replies) @ extra \<Longrightarrow>
   \<exists>replies' c'. consume (int (length replies)) c = (True, int (length replies'), c') \<and>
     list_all within_depth replies' \<and> conn_fd c' = conn_fd c \<and>
     left_over c' @ future = concat (map serialize replies') @ extra \<and>
     (future = [] \<longrightarrow> replies' = [])"
proof (induction replies arbitrary: c)
  case Nil
  then show ?case by (subst consume.simps) (auto intro!: exI [of _ "[]"])
next
  case (Cons r rs)
  have r: "within_depth r" using Cons.prems(1) by simp
  have "serialize r \<noteq> []" using resp.step_bounds [OF resp.step_encode [OF r, of "[]"]] by auto
  show ?case
  proof (cases "length (serialize r) \<le> length (left_over c)")
    case True
    let ?rest = "drop (length (serialize r)) (left_over c)"
    have split: "left_over c = serialize r @ ?rest"
    proof -
      have "take (length (serialize r)) (left_over c @ future) = serialize r" using Cons.prems(2) by simp
      with True have "take (length (serialize r)) (left_over c) = serialize r" by simp
      then show ?thesis by (metis append_take_drop_id)
    qed
    let ?c = "c\<lparr>parsed := parsed c + length (serialize r)\<rparr>"
    have "parse (left_over c) = \<lparr>pr_status = Ok, pr_value = r, pr_consumed = length (serialize r), pr_error = []\<rparr>"
      using parse_within_depth [OF r, of ?rest] split by simp
    moreover have "left_over c \<noteq> []" using True \<open>serialize r \<noteq> []\<close> by auto
    ultimately have step: "consume (int (length (r # rs))) c = consume (int (length rs)) ?c"
      by (subst consume.simps) (simp add: Let_def flip: left_over_def)
    have "serialize r @ ?rest @ future = serialize r @ concat (map serialize rs) @ extra"
      using Cons.prems(2) by (subst (asm) split) simp
    then have "left_over ?c @ future = concat (map serialize rs) @ extra"
      unfolding left_over_skip by simp
    from Cons.IH [OF _ this] Cons.prems(1) show ?thesis unfolding step by simp
  next
    case False
    then have "pr_status (parse (left_over c)) = Incomplete"
      by (intro parse_inside [OF r, of _ future "concat (map serialize rs) @ extra"])
        (use Cons.prems(2) in simp_all)
    then have "consume (int (length (r # rs))) c = (True, int (length (r # rs)), c)"
      by (subst consume.simps) (simp add: Let_def flip: left_over_def)
    moreover have "future \<noteq> []"
    proof
      assume "future = []"
      then have "length (left_over c) = length (serialize r) + length (concat (map serialize rs) @ extra)"
        using arg_cong [OF Cons.prems(2), of length] by simp
      with False show False by simp
    qed
    ultimately show ?thesis using Cons.prems by blast
  qed
qed

lemma compact_left_over: "left_over (compact c) = left_over c" "parsed (compact c) = 0" "conn_fd (compact c) = conn_fd c"
  by (simp_all add: compact_def left_over_def)

lemma left_over_append:
  "parsed c = 0 \<Longrightarrow> left_over (c\<lparr>incoming := incoming c @ chunk\<rparr>) = left_over c @ chunk"
  by (simp add: left_over_def)

text \<open>The reply loop of the client finds exactly the replies it waits for, however the bytes of the replies,
  and of what comes after them, are cut into pieces and interrupted: it returns with all that is not
  part of them still in its buffer or still to come.\<close>

lemma replies_awaited:
  assumes "list_all within_depth replies" "list_all arrives results"
    and "drop (parsed connection) (incoming connection) @ arriving results = concat (map serialize replies) @ extra"
    and "parsed connection = 0 \<or> replies \<noteq> []"
  shows "\<exists>c results'. await_replies results (int (length replies)) connection = Some (True, c, results') \<and>
    parsed c = 0 \<and> conn_fd c = conn_fd connection \<and> incoming c @ arriving results' = extra"
proof -
  have all: "\<exists>c results'. await_replies results (int (length replies)) connection = Some (True, c, results') \<and>
      parsed c = 0 \<and> conn_fd c = conn_fd connection \<and> incoming c @ arriving results' = extra"
    if "list_all within_depth replies" "list_all arrives results"
      "left_over connection @ arriving results = concat (map serialize replies) @ extra"
      "parsed connection = 0 \<or> replies \<noteq> []" for replies
    using that
  proof (induction results arbitrary: replies connection)
    case (Nil replies)
    show ?case
    proof (cases "replies = []")
      case True
      with Nil show ?thesis by (subst await_replies.simps) (simp add: left_over_def)
    next
      case False
      obtain c where "consume (int (length replies)) connection = (True, 0, c)" "conn_fd c = conn_fd connection"
        "left_over c = extra"
        using consume_replies [OF Nil.prems(1), of connection "[]" extra] Nil.prems(3) by auto
      with False compact_left_over [of c] show ?thesis
        by (subst await_replies.simps) (simp add: Let_def left_over_def)
    qed
  next
    case (Cons result results replies)
    show ?case
    proof (cases "replies = []")
      case True
      with Cons.prems show ?thesis by (subst await_replies.simps) (simp add: left_over_def)
    next
      case False
      obtain replies' c where taken: "consume (int (length replies)) connection = (True, int (length replies'), c)"
        "list_all within_depth replies'" "conn_fd c = conn_fd connection"
        "left_over c @ arriving (result # results) = concat (map serialize replies') @ extra"
        using consume_replies [OF Cons.prems(1,3)] by blast
      let ?c = "compact c"
      note kept = compact_left_over [of c]
      show ?thesis
      proof (cases "replies' = []")
        case True
        with taken False kept show ?thesis
          by (subst await_replies.simps) (auto simp: Let_def left_over_def)
      next
        case wanting: False
        show ?thesis
        proof (cases result)
          case (Recv chunk)
          let ?next = "?c\<lparr>incoming := incoming ?c @ chunk\<rparr>"
          have "left_over ?next @ arriving results = concat (map serialize replies') @ extra"
            using taken(4) Recv kept left_over_append [of ?c chunk] by simp
          from Cons.IH [OF taken(2) _ this] Cons.prems(2) wanting
          obtain d results' where "await_replies results (int (length replies')) ?next = Some (True, d, results')"
            "parsed d = 0" "conn_fd d = conn_fd ?next" "incoming d @ arriving results' = extra"
            by auto
          with taken wanting False Recv Cons.prems(2) kept show ?thesis
            by (subst await_replies.simps) (simp add: Let_def)
        next
          case (RecvFails e)
          have "left_over ?c @ arriving results = concat (map serialize replies') @ extra"
            using taken(4) RecvFails kept by simp
          from Cons.IH [OF taken(2) _ this] Cons.prems(2) wanting
          obtain d results' where "await_replies results (int (length replies')) ?c = Some (True, d, results')"
            "parsed d = 0" "conn_fd d = conn_fd ?c" "incoming d @ arriving results' = extra"
            by auto
          with taken wanting False RecvFails Cons.prems(2) kept show ?thesis
            by (subst await_replies.simps) (simp add: Let_def)
        qed
      qed
    qed
  qed
  show ?thesis by (rule all [OF assms(1,2) _ assms(4)]) (simp add: left_over_def assms(3))
qed

lemma serve_map: "serve env i (map f ws) = map (\<lambda>(e, w). (e, f w)) (zip (map env [i..<i + length ws]) ws)"
  by (simp add: serve_def zip_map2)

text \<open>The server reads what the client makes for a batch as the batch.\<close>

lemma batch_read:
  assumes "list_all (\<lambda>words. within_depth (request words)) batch"
  shows "drain parse_outcome (concat (map encode batch)) = (map request batch, [], None)"
proof -
  have "concat (map encode batch) = concat (map serialize (map request batch))"
    by (simp add: encode_serializes [abs_def] comp_def)
  then show ?thesis
    using drain_serialized [of "map request batch"] assms by (simp add: list_all_iff)
qed

lemma batch_served:
  assumes "list_all (\<lambda>words. within_depth (request words)) batch"
    and "run execute_command (serve env 0 (map request batch)) s log = (replies, s', log')"
  shows "request_loop env 0 (concat (map encode batch)) [] s log =
    (None, [], concat (map serialize replies), s', log')"
proof -
  from request_loop_drain [OF batch_read [OF assms(1)] assms(2), of "[]"] show ?thesis by simp
qed

text \<open>C25. A pipelined batch goes through the server and back. The server reads the bytes the client makes for
  any requests as just these requests, in order, leaves nothing in its buffer, and its store, its log and
  the bytes it answers are those of running these requests; the client, whatever pieces the bytes of
  the replies come in, finds as many replies as it sent requests, and nothing is left over. The
  verbs must not hold a line end, and the replies must fit what the parser reads.\<close>

theorem batch_is_answered:
  assumes "no_orphans s" "list_all (\<lambda>words. within_depth (request words) \<and> one_line (words ! 0)) batch"
    and "request_loop env 0 (concat (map encode batch)) [] s log = (bad, rest, out, s', log')"
    and "list_all reply_fits (fst (run execute_command (serve env 0 (map request batch)) s log))"
    and "list_all arrives results" "arriving results = out"
  shows "drain parse_outcome (concat (map encode batch)) = (map request batch, [], None) \<and>
    bad = None \<and> rest = [] \<and>
    (case run execute_command (serve env 0 (map request batch)) s log of (replies, s'', log'') \<Rightarrow>
       out = concat (map serialize replies) \<and> s' = s'' \<and> log' = log'') \<and>
    (\<exists>c results'. await_replies results (int (length batch)) \<lparr>conn_fd = fd, incoming = [], parsed = 0\<rparr> =
       Some (True, c, results') \<and> incoming c = [] \<and> arriving results' = [])"
proof -
  obtain replies s1 log1 where run: "run execute_command (serve env 0 (map request batch)) s log = (replies, s1, log1)"
    by (metis prod_cases3)
  have "list_all (\<lambda>words. within_depth (request words)) batch" using assms(2) by (auto simp: list_all_iff)
  note read = batch_read [OF this]
  from batch_served [OF \<open>list_all (\<lambda>words. within_depth (request words)) batch\<close> run] assms(3)
  have served: "bad = None" "rest = []" "out = concat (map serialize replies)" "s' = s1" "log' = log1" by auto
  have "run execute_command (map (\<lambda>(env, words). (env, request words)) (zip (map env [0..<0 + length batch]) batch)) s log =
      (replies, s1, log1)"
    using run unfolding serve_map .
  moreover have "list_all (\<lambda>(env, words). one_line (words ! 0)) (zip (map env [0..<0 + length batch]) batch)"
    using assms(2) by (auto simp: list_all_iff dest: set_zip_rightD)
  ultimately have "list_all within_depth replies"
    using run_replies_within [OF assms(1)] assms(4) run by simp
  moreover have "length replies = length batch"
    using run_length [of execute_command "serve env 0 (map request batch)" s log] run by (simp add: serve_def)
  ultimately show ?thesis
    using replies_awaited [OF _ assms(5), of replies "\<lparr>conn_fd = fd, incoming = [], parsed = 0\<rparr>" "[]"] assms(6) served
      read run
    by auto
qed

theorem batch_is_answered_witness:
  "\<exists>out c results'. out = ''+PONG'' @ crlf @ ''+OK'' @ crlf \<and>
     await_replies [Recv ''+PON'', RecvFails EINTR, Recv (''G'' @ crlf @ ''+OK'' @ crlf)] 2
       \<lparr>conn_fd = 5, incoming = [], parsed = 0\<rparr> = Some (True, c, results') \<and> incoming c = []"
proof -
  let ?batch = "[[''PING''], [''SET'', ''k'', ''v'']]" and ?env = "\<lambda>i. env_at 5"
  let ?results = "[Recv ''+PON'', RecvFails EINTR, Recv (''G'' @ crlf @ ''+OK'' @ crlf)]"
  let ?run = "run execute_command (serve ?env 0 (map request ?batch)) empty_store None"
  obtain bad rest out s' log' where loop:
    "request_loop ?env 0 (concat (map encode ?batch)) [] empty_store None = (bad, rest, out, s', log')"
    by (metis prod_cases5)
  have ok: "list_all (\<lambda>words. within_depth (request words) \<and> one_line (words ! 0)) ?batch"
    by (simp add: within_depth_def request_def make_defs nesting_le_iff kMaxDepth_def llong_defs one_line_def)
  have replies: "fst ?run = [make_simple_string ''PONG'', make_simple_string ''OK'']" by code_simp
  have fits: "list_all reply_fits (fst ?run)"
    unfolding replies by (simp add: reply_fits_def make_defs llong_defs fits_llong_def)
  obtain replies1 s1 log1 where run: "?run = (replies1, s1, log1)" by (metis prod_cases3)
  have "list_all (\<lambda>words. within_depth (request words)) ?batch" using ok by simp
  from batch_served [OF this run] loop have "out = concat (map serialize (fst ?run))" by (simp only: run fst_conv prod.inject)
  then have out: "out = ''+PONG'' @ crlf @ ''+OK'' @ crlf" unfolding replies by (simp add: make_defs)
  have "list_all arrives ?results" "arriving ?results = out" by (simp_all add: out)
  from batch_is_answered [OF no_orphans_empty ok loop fits this, of 5] out show ?thesis by auto
qed

subsection \<open>Runs\<close>

lemma payload_split:
  assumes "0 \<le> batch" "sent + batch \<le> ops"
  shows "payload_of req prefix sent batch @ concat (map (req prefix) [sent + batch..ops - 1]) =
    concat (map (req prefix) [sent..ops - 1])"
proof -
  have "map (\<lambda>i. req prefix (sent + i)) [0..batch - 1] = map (req prefix) [sent..sent + batch - 1]"
    by (rule nth_equalityI) (auto simp: algebra_simps)
  moreover have "[sent..ops - 1] = [sent..sent + batch - 1] @ [sent + batch..ops - 1]"
    using upto_split2 [of sent "sent + batch - 1" "ops - 1"] assms by (cases "batch = 0") auto
  ultimately show ?thesis by (simp add: payload_of_def)
qed

text \<open>If a batch always returns, the loop does, and each request was sent once and in order.\<close>

lemma batches_return:
  assumes "1 \<le> depth"
    and talk: "\<And>s p n. ready s \<Longrightarrow> \<exists>ok s'. talk s p n = Some (ok, s') \<and> (ok \<longrightarrow> ready s' \<and> seen s' = seen s @ p)"
  shows "ready s \<Longrightarrow> \<exists>ok s'. batches talk req prefix ops depth sent s = Some (ok, s') \<and>
    (ok \<longrightarrow> seen s' = seen s @ concat (map (req prefix) [sent..ops - 1]))"
proof (induction "nat (ops - sent)" arbitrary: sent s rule: less_induct)
  case less
  show ?case
  proof (cases "sent < ops")
    case True
    let ?batch = "min depth (ops - sent)"
    obtain ok s1 where one: "talk s (payload_of req prefix sent ?batch) ?batch = Some (ok, s1)"
      "ok \<longrightarrow> ready s1 \<and> seen s1 = seen s @ payload_of req prefix sent ?batch"
      using talk [OF less.prems] by blast
    have step: "batches talk req prefix ops depth sent s =
        (if ok then batches talk req prefix ops depth (sent + ?batch) s1 else Some (False, s1))"
      using True one(1) by (subst batches.simps) (simp add: Let_def)
    show ?thesis
    proof (cases ok)
      case True
      have "nat (ops - (sent + ?batch)) < nat (ops - sent)" using \<open>sent < ops\<close> assms(1) by auto
      from less.hyps [OF this, of s1] True one(2)
      obtain ok' s' where rest: "batches talk req prefix ops depth (sent + ?batch) s1 = Some (ok', s')"
        "ok' \<longrightarrow> seen s' = seen s1 @ concat (map (req prefix) [sent + ?batch..ops - 1])"
        by blast
      have "payload_of req prefix sent ?batch @ concat (map (req prefix) [sent + ?batch..ops - 1]) =
          concat (map (req prefix) [sent..ops - 1])"
        by (rule payload_split) (use \<open>sent < ops\<close> assms(1) in auto)
      with step True rest one(2) show ?thesis by simp
    next
      case False
      with step show ?thesis by (intro exI [of _ False] exI [of _ s1]) simp
    qed
  next
    case False
    then show ?thesis by (subst batches.simps) auto
  qed
qed

text \<open>A batch of nothing changes nothing, so the loop that makes only such batches never returns. With a depth
  below 0, \<open>sent\<close> falls in every turn; this holds as long as the program's \<open>int\<close>s hold the numbers, and with
  the turn in which they do not, its behaviour is undefined.\<close>

lemma batches_of_none:
  assumes "batches talk req prefix ops depth sent s = Some r"
  shows "depth \<le> 0 \<and> (\<forall>s w. w \<le> 0 \<longrightarrow> talk s [] w = Some (True, s)) \<longrightarrow> ops \<le> sent"
proof (rule batches.raw_induct [where P = "\<lambda>talk req prefix ops depth sent s r.
    depth \<le> 0 \<and> (\<forall>s w. w \<le> 0 \<longrightarrow> talk s [] w = Some (True, s)) \<longrightarrow> ops \<le> sent", OF _ assms])
  fix f and talk :: "'c \<Rightarrow> string \<Rightarrow> int \<Rightarrow> (bool \<times> 'c) option" and req :: RequestFor
    and prefix and ops depth sent :: int and s r
  assume IH: "\<And>talk req prefix ops depth sent s r. f talk req prefix ops depth sent s = Some r \<Longrightarrow>
      depth \<le> 0 \<and> (\<forall>s w. w \<le> 0 \<longrightarrow> talk s [] w = Some (True, s)) \<longrightarrow> ops \<le> sent"
    and step: "(if sent < ops then
        let batch = min depth (ops - sent) in
        Option.bind (talk s (payload_of req prefix sent batch) batch)
          (\<lambda>(ok, s). if \<not> ok then Some (False, s) else f talk req prefix ops depth (sent + batch) s)
      else Some (True, s)) = Some r"
  show "depth \<le> 0 \<and> (\<forall>s w. w \<le> 0 \<longrightarrow> talk s [] w = Some (True, s)) \<longrightarrow> ops \<le> sent"
  proof (intro impI, elim conjE, rule ccontr)
    assume none: "depth \<le> 0" "\<forall>s w. w \<le> 0 \<longrightarrow> talk s [] w = Some (True, s)" and "\<not> ops \<le> sent"
    then have "f talk req prefix ops depth (sent + depth) s = Some r"
      using step by (simp add: Let_def payload_of_def min_def)
    from IH [OF this] none \<open>\<not> ops \<le> sent\<close> show False by simp
  qed
qed

text \<open>A result that ends \<open>send_all\<close>\<close>

definition ends_sending :: "send_result \<Rightarrow> bool" where
  "ends_sending r \<longleftrightarrow> (case r of Sent n \<Rightarrow> False | SendBlocks result \<Rightarrow> True | SendFails e \<Rightarrow> e \<noteq> EINTR)"

lemma ends_sending_simps [simp]:
  "\<not> ends_sending (Sent n)" "ends_sending (SendBlocks result)" "ends_sending (SendFails e) \<longleftrightarrow> e \<noteq> EINTR"
  by (simp_all add: ends_sending_def)

lemma send_all_returns:
  "list_ex ends_sending sends \<Longrightarrow>
   \<exists>ok bytes rest. send_all sends payload = Some (ok, bytes, rest) \<and>
     (ok \<longrightarrow> list_ex ends_sending rest \<and> bytes = payload)"
proof (induction sends payload rule: send_all.induct)
  case (3 n results b bs)
  then obtain ok bytes rest where "send_all results (drop n (b # bs)) = Some (ok, bytes, rest)"
    "ok \<longrightarrow> list_ex ends_sending rest \<and> bytes = drop n (b # bs)"
    by auto
  then show ?case by (auto simp del: take_Cons drop_Cons)
qed auto

lemma await_replies_returns:
  "list_ex (\<lambda>r. \<not> arrives r) receives \<Longrightarrow>
   \<exists>ok c rest. await_replies receives wanted connection = Some (ok, c, rest) \<and>
     (ok \<longrightarrow> list_ex (\<lambda>r. \<not> arrives r) rest)"
proof (induction receives arbitrary: wanted connection)
  case (Cons r receives)
  obtain ok wanted' c where taken: "consume wanted connection = (ok, wanted', c)" by (metis prod_cases3)
  show ?case
  proof (cases "0 < wanted \<and> ok \<and> wanted' \<noteq> 0")
    case True
    show ?thesis
    proof (cases r)
      case (Recv chunk)
      with taken True Cons show ?thesis
        by (cases "chunk = []"; subst await_replies.simps) (auto simp: Let_def)
    next
      case (RecvFails e)
      with taken True Cons show ?thesis
        by (cases "e = EINTR"; subst await_replies.simps) (auto simp: Let_def)
    qed
  next
    case False
    with taken Cons.prems show ?thesis by (subst await_replies.simps) (auto simp: Let_def)
  qed
qed simp

fun session_ends :: "session \<Rightarrow> bool" where
  "session_ends (connection, sends, receives, sent) \<longleftrightarrow>
     list_ex ends_sending sends \<and> list_ex (\<lambda>r. \<not> arrives r) receives"

fun bytes_out :: "session \<Rightarrow> string" where
  "bytes_out (connection, sends, receives, sent) = sent"

lemma exchange_returns:
  assumes "session_ends s"
  shows "\<exists>ok s'. exchange s payload wanted = Some (ok, s') \<and>
    (ok \<longrightarrow> session_ends s' \<and> bytes_out s' = bytes_out s @ payload)"
proof -
  obtain connection sends receives sent where s: "s = (connection, sends, receives, sent)" by (metis prod_cases4)
  have ends: "list_ex ends_sending sends" "list_ex (\<lambda>r. \<not> arrives r) receives" using assms s by simp_all
  obtain ok bytes sends' where one: "send_all sends payload = Some (ok, bytes, sends')"
    "ok \<longrightarrow> list_ex ends_sending sends' \<and> bytes = payload"
    using send_all_returns [OF ends(1), of payload] by blast
  obtain ok' c receives' where two: "await_replies receives wanted connection = Some (ok', c, receives')"
    "ok' \<longrightarrow> list_ex (\<lambda>r. \<not> arrives r) receives'"
    using await_replies_returns [OF ends(2), of wanted connection] by blast
  show ?thesis
  proof (cases ok)
    case True
    then have "send_all sends payload = Some (True, payload, sends')" "list_ex ends_sending sends'"
      using one by simp_all
    then have "exchange s payload wanted = Some (ok', c, sends', receives', sent @ payload)"
      unfolding s exchange.simps by (simp only: option.case prod.case two(1)) simp
    moreover have "ok' \<longrightarrow> session_ends (c, sends', receives', sent @ payload)"
      using two(2) \<open>list_ex ends_sending sends'\<close> by simp
    moreover have "bytes_out (c, sends', receives', sent @ payload) = bytes_out s @ payload" by (simp add: s)
    ultimately show ?thesis by blast
  next
    case False
    with one(1) have "send_all sends payload = Some (False, bytes, sends')" by simp
    then have "exchange s payload wanted = Some (False, connection, sends', receives, sent @ bytes)"
      unfolding s exchange.simps by (simp only: option.case prod.case) simp
    then show ?thesis by blast
  qed
qed

lemma exchange_nothing: "wanted \<le> 0 \<Longrightarrow> exchange s [] wanted = Some (True, s)"
  by (cases s rule: session_ends.cases) (simp add: await_replies.simps [of _ wanted])

lemma negative_depth: "depth < 0 \<Longrightarrow> 0 < ops \<Longrightarrow> run_pipelined exchange req prefix ops depth s = None"
  using batches_of_none [of exchange req prefix ops depth 0 s] exchange_nothing
  by (cases "run_pipelined exchange req prefix ops depth s") (auto simp: run_pipelined_def)

text \<open>C24. A pipelined run returns on every connection that ends at some time, for any number of requests and any
  depth from 1 on, and if it got to the end the bytes it sent are those of its requests, each one
  once and in order. With a depth of 0 it never returns, not even when the server is gone.\<close>

theorem pipelined_run_returns:
  assumes "list_ex ends_sending sends" "list_ex (\<lambda>r. \<not> arrives r) receives"
    and "s = (connection, sends, receives, sent)"
  shows "(1 \<le> depth \<longrightarrow> (\<exists>ok s'. run_pipelined exchange req prefix ops depth s = Some (ok, s') \<and>
      (ok \<longrightarrow> bytes_out s' = sent @ concat (map (req prefix) [0..ops - 1])))) \<and>
    (0 < ops \<longrightarrow> run_pipelined exchange req prefix ops 0 s = None)"
proof
  have "session_ends s" "bytes_out s = sent" using assms by simp_all
  then show "1 \<le> depth \<longrightarrow> (\<exists>ok s'. run_pipelined exchange req prefix ops depth s = Some (ok, s') \<and>
      (ok \<longrightarrow> bytes_out s' = sent @ concat (map (req prefix) [0..ops - 1])))"
    using batches_return [of depth session_ends exchange bytes_out s req prefix ops 0] exchange_returns
    by (auto simp: run_pipelined_def)
  show "0 < ops \<longrightarrow> run_pipelined exchange req prefix ops 0 s = None"
    using batches_of_none [of exchange req prefix ops 0 0 s] exchange_nothing
    by (cases "run_pipelined exchange req prefix ops 0 s") (auto simp: run_pipelined_def)
qed

theorem pipelined_run_returns_witness:
  "let s = (\<lparr>conn_fd = 5, incoming = [], parsed = 0\<rparr>, [Sent 4, SendFails EINTR, Sent 99, SendFails OtherError],
     [Recv (''+PONG'' @ crlf), Recv []], [])
   in run_pipelined exchange ping ''warmup'' 2000 64 s \<noteq> None \<and> run_pipelined exchange ping ''warmup'' 2000 0 s = None"
proof -
  let ?connection = "\<lparr>conn_fd = 5, incoming = [], parsed = 0\<rparr>"
  let ?sends = "[Sent 4, SendFails EINTR, Sent 99, SendFails OtherError]"
  let ?receives = "[Recv (''+PONG'' @ crlf), Recv []]"
  have "list_ex ends_sending ?sends" "list_ex (\<lambda>r. \<not> arrives r) ?receives" by simp_all
  from pipelined_run_returns [OF this refl, of 64 ping "''warmup''" 2000 ?connection "[]"] show ?thesis
    unfolding Let_def by auto
qed

text \<open>A sequential run is a pipelined one of depth 1.\<close>

lemma sequential_is_pipelined: "run_sequential talk req prefix ops s = run_pipelined talk req prefix ops 1 s"
proof -
  have "one_by_one talk req prefix ops i s = batches talk req prefix ops 1 i s" for i s
  proof (induction "nat (ops - i)" arbitrary: i s rule: less_induct)
    case less
    show ?case
    proof (cases "i < ops")
      case True
      then have "one_by_one talk req prefix ops (i + 1) = batches talk req prefix ops 1 (i + 1)"
        by (intro ext less.hyps) simp
      with True show ?thesis
        by (subst one_by_one.simps, subst batches.simps) (simp add: Let_def payload_of_def min_def cong: if_cong)
    next
      case False
      then show ?thesis by (subst one_by_one.simps, subst batches.simps) simp
    qed
  qed
  then show ?thesis by (simp add: run_sequential_def run_pipelined_def)
qed

text \<open>The port is cut to its 16 bits: an option that names a port the system does not have is accepted and
  names another one.\<close>

lemma port_option_wraps:
  "parse_options [''--port'', ''70000''] default_options = Inr (default_options\<lparr>opt_port := 4464\<rparr>)"
  by code_simp

end
