(* ===== verification/Echo.thy ===== *)
theory Echo
  imports Sockets Numbers "HOL-Library.Sublist"
begin

text \<open>
  The echo experiments: \<open>src/experiments/tcp_echo_server.cpp\<close> and \<open>tcp_echo_client.cpp\<close>.

  Each program is a straight line of system calls in which every failure returns at once. The
  results of the calls are a record; the value of a program is its exit code and the list of what it
  did: the descriptors it opened and closed, the bytes it sent, the bytes it printed, and the messages of
  \<open>perror\<close>, each by the name it was given.
\<close>

datatype action = Opens int | Closes int | Sends int string | Prints string | Perror string

text \<open>The results: negative numbers are failures; \<open>recv\<close> gets the size of the buffer and returns bytes or
  fails; \<open>send\<close> gets the bytes and returns how many it took.\<close>

record ServerCalls =
  es_socket :: int
  es_setsockopt :: int
  es_bind :: "32 word \<Rightarrow> 16 word \<Rightarrow> int"
  es_listen :: "nat \<Rightarrow> int"
  es_accept :: int
  es_recv :: "nat \<Rightarrow> recv_result"
  es_send :: "string \<Rightarrow> int"

record ClientCalls =
  ec_socket :: int
  ec_connect :: "32 word \<Rightarrow> 16 word \<Rightarrow> int"
  ec_send :: "string \<Rightarrow> int"
  ec_recv :: "nat \<Rightarrow> recv_result"

definition echo_server :: "ServerCalls \<Rightarrow> int \<times> action list" where
  "echo_server k =
     (let port = 6380; server_fd = es_socket k in
      if server_fd < 0 then (1, [Perror ''socket''])
      else if es_setsockopt k < 0 then (1, [Opens server_fd, Perror ''setsockopt'', Closes server_fd])
      else if es_bind k INADDR_LOOPBACK port < 0 then (1, [Opens server_fd, Perror ''bind'', Closes server_fd])
      else if es_listen k 1 < 0 then (1, [Opens server_fd, Perror ''listen'', Closes server_fd])
      else let listening = [Opens server_fd, Prints (''listening on 127.0.0.1:'' @ to_string (uint port) @ [LF])];
               client_fd = es_accept k in
        if client_fd < 0 then (1, listening @ [Perror ''accept'', Closes server_fd])
        else let opened = listening @ [Opens client_fd, Prints (''client connected'' @ [LF])];
                 finished = [Closes client_fd, Closes server_fd] in
          case es_recv k 1024 of
            RecvFails e \<Rightarrow> (1, opened @ [Perror ''recv''] @ finished)
          | Recv received \<Rightarrow>
              if received = []
              then (0, opened @ [Prints (''client disconnected without sending anything'' @ [LF])] @ finished)
              else let read = opened @ [Prints (''received '' @ to_string (int (length received)) @ '' bytes: ''),
                         Prints received, Prints [LF]];
                       sent = es_send k received in
                if sent < 0 then (1, read @ [Perror ''send''] @ finished)
                else (0, read @ [Sends client_fd (take (nat sent) received),
                        Prints (''echoed '' @ to_string sent @ '' bytes back'' @ [LF])] @ finished @
                        [Prints (''server shutting down'' @ [LF])]))"

text \<open>\<open>args\<close> is \<open>argv\<close> without the program.\<close>

definition echo_client :: "ClientCalls \<Rightarrow> string list \<Rightarrow> int \<times> action list" where
  "echo_client k args =
     (let port = 6380; message = (if 0 < length args then args ! 0 else ''hello''); fd = ec_socket k in
      if fd < 0 then (1, [Perror ''socket''])
      else if ec_connect k INADDR_LOOPBACK port < 0 then (1, [Opens fd, Perror ''connect'', Closes fd])
      else let opened = [Opens fd, Prints (''connected to 127.0.0.1:'' @ to_string (uint port) @ [LF]),
                 Prints (''sending: '' @ message @ [LF])];
               sent = ec_send k message in
        if sent < 0 then (1, opened @ [Perror ''send'', Closes fd])
        else let asked = opened @ [Sends fd (take (nat sent) message)] in
          case ec_recv k 1024 of
            RecvFails e \<Rightarrow> (1, asked @ [Perror ''recv'', Closes fd])
          | Recv received \<Rightarrow>
              (0, asked @ [Prints ''server replied: '', Prints received, Prints [LF], Closes fd]))"

subsection \<open>Descriptors\<close>

text \<open>The descriptors that are open after a list of actions, or nothing if a descriptor is closed that is not
  open or used after it was closed.\<close>

fun act :: "action \<Rightarrow> int set \<Rightarrow> int set option" where
  "act (Opens fd) table = Some (insert fd table)"
| "act (Closes fd) table = (if fd \<in> table then Some (table - {fd}) else None)"
| "act (Sends fd bytes) table = (if fd \<in> table then Some table else None)"
| "act (Prints bytes) table = Some table"
| "act (Perror call) table = Some table"

fun acts :: "action list \<Rightarrow> int set \<Rightarrow> int set option" where
  "acts [] table = Some table"
| "acts (a # as) table = (case act a table of None \<Rightarrow> None | Some table' \<Rightarrow> acts as table')"

lemma echo_server_releases:
  "es_accept k \<noteq> es_socket k \<Longrightarrow> acts (snd (echo_server k)) {} = Some {}"
  by (auto simp: echo_server_def Let_def split: recv_result.split)

lemma echo_client_releases: "acts (snd (echo_client k args)) {} = Some {}"
  by (auto simp: echo_client_def Let_def split: recv_result.split)

definition quiet_server :: "string \<Rightarrow> ServerCalls" where
  "quiet_server received = \<lparr>es_socket = 3, es_setsockopt = 0, es_bind = \<lambda>address port. 0, es_listen = \<lambda>backlog. 0,
     es_accept = 4, es_recv = \<lambda>room. Recv (take room received), es_send = (\<lambda>bytes. int (length bytes))\<rparr>"

definition quiet_client :: "string \<Rightarrow> ClientCalls" where
  "quiet_client received = \<lparr>ec_socket = 3, ec_connect = \<lambda>address port. 0,
     ec_send = (\<lambda>bytes. int (length bytes)), ec_recv = \<lambda>room. Recv (take room received)\<rparr>"

subsection \<open>The exchange\<close>

definition bytes_sent :: "action list \<Rightarrow> string" where
  "bytes_sent as = concat (map (\<lambda>a. case a of Sends fd bytes \<Rightarrow> bytes | _ \<Rightarrow> []) as)"

definition bytes_printed :: "action list \<Rightarrow> string" where
  "bytes_printed as = concat (map (\<lambda>a. case a of Prints bytes \<Rightarrow> bytes | _ \<Rightarrow> []) as)"

lemma bytes_simps [simp]:
  "bytes_sent [] = []" "bytes_sent (Opens fd # as) = bytes_sent as" "bytes_sent (Closes fd # as) = bytes_sent as"
  "bytes_sent (Sends fd bytes # as) = bytes @ bytes_sent as" "bytes_sent (Prints bytes # as) = bytes_sent as"
  "bytes_printed [] = []" "bytes_printed (Opens fd # as) = bytes_printed as"
  "bytes_printed (Closes fd # as) = bytes_printed as" "bytes_printed (Sends fd bytes # as) = bytes_printed as"
  "bytes_printed (Prints bytes # as) = bytes @ bytes_printed as"
  "bytes_sent (Perror call # as) = bytes_sent as" "bytes_printed (Perror call # as) = bytes_printed as"
  by (simp_all add: bytes_sent_def bytes_printed_def)

text \<open>What a connection brings: some first part of what the other side sent.\<close>

definition brings :: "(nat \<Rightarrow> recv_result) \<Rightarrow> string \<Rightarrow> bool" where
  "brings receive bytes \<longleftrightarrow>
     (\<forall>room. case receive room of Recv chunk \<Rightarrow> prefix chunk bytes \<and> length chunk \<le> room | RecvFails e \<Rightarrow> True)"

lemma echo_server_sends:
  "es_recv k 1024 = Recv received \<Longrightarrow> prefix (bytes_sent (snd (echo_server k))) received"
  by (auto simp: echo_server_def Let_def take_is_prefix split: recv_result.split)

lemma echo_server_sends_nothing: "es_recv k 1024 = RecvFails e \<Longrightarrow> bytes_sent (snd (echo_server k)) = []"
  by (simp add: echo_server_def Let_def)

lemma echo_server_sends_prefix:
  assumes "brings (es_recv s) bytes"
  shows "prefix (bytes_sent (snd (echo_server s))) bytes"
proof (cases "es_recv s 1024")
  case (Recv received)
  then have "prefix received bytes" using assms unfolding brings_def by (metis recv_result.case(1))
  with echo_server_sends [OF Recv] show ?thesis by (rule prefix_order.trans)
qed (simp add: echo_server_sends_nothing)

lemma echo_client_sends:
  "prefix (bytes_sent (snd (echo_client k args))) (if args = [] then ''hello'' else hd args)"
  by (auto simp: echo_client_def Let_def take_is_prefix hd_conv_nth split: recv_result.split)

text \<open>The output of a client that exits with 0.\<close>

definition client_lines :: "string \<Rightarrow> string \<Rightarrow> string" where
  "client_lines message reply =
     ''connected to 127.0.0.1:6380'' @ [LF] @ ''sending: '' @ message @ [LF] @ ''server replied: '' @ reply @ [LF]"

lemma port_text: "to_string 6380 = ''6380''"
  by code_simp

lemma echo_client_prints:
  "fst (echo_client k [message]) = 0 \<Longrightarrow>
   \<exists>reply. ec_recv k 1024 = Recv reply \<and> bytes_printed (snd (echo_client k [message])) = client_lines message reply"
  by (auto simp: echo_client_def client_lines_def port_text Let_def split: recv_result.splits if_splits)

lemma echo_client_sends_all:
  "fst (echo_client k [message]) = 0 \<Longrightarrow> ec_send k message = int (length message) \<Longrightarrow>
   bytes_sent (snd (echo_client k [message])) = message"
  by (auto simp: echo_client_def Let_def split: recv_result.splits if_splits)

lemma echo_server_sends_all:
  "fst (echo_server k) = 0 \<Longrightarrow> es_recv k 1024 = Recv message \<Longrightarrow> es_send k message = int (length message) \<Longrightarrow>
   bytes_sent (snd (echo_server k)) = message"
  by (auto simp: echo_server_def Let_def split: recv_result.splits if_splits)

text \<open>Nothing is cut: each \<open>send\<close> takes the whole message, and each \<open>recv\<close> gets all that the other side sent.\<close>

definition uncut :: "ServerCalls \<Rightarrow> ClientCalls \<Rightarrow> string \<Rightarrow> bool" where
  "uncut s c message \<longleftrightarrow>
     ec_send c message = int (length message) \<and> es_send s message = int (length message) \<and>
     es_recv s 1024 = Recv (bytes_sent (snd (echo_client c [message]))) \<and>
     ec_recv c 1024 = Recv (bytes_sent (snd (echo_server s)))"

text \<open>C39. The echo comes back: when the server gets what the client sent and the client what the server sent,
  however the two are cut, a client that exits with 0 has printed that it is connected, the message it
  sends, and a reply that is a first part of the message; the reply is all of the message if nothing is
  cut and the server exits with 0 too. Whichever calls fail, neither program leaks a descriptor, closes
  one twice or uses one that is closed.\<close>

theorem echo_exchange:
  assumes "brings (es_recv s) (bytes_sent (snd (echo_client c [message])))"
    and "brings (ec_recv c) (bytes_sent (snd (echo_server s)))"
    and "es_accept s \<noteq> es_socket s"
  shows "acts (snd (echo_server s)) {} = Some {} \<and> acts (snd (echo_client c [message])) {} = Some {} \<and>
    (fst (echo_client c [message]) = 0 \<longrightarrow>
      (\<exists>reply. prefix reply message \<and> length reply \<le> 1024 \<and>
         bytes_printed (snd (echo_client c [message])) = client_lines message reply \<and>
         (uncut s c message \<and> fst (echo_server s) = 0 \<longrightarrow> reply = message)))"
proof (intro conjI impI)
  assume finished: "fst (echo_client c [message]) = 0"
  obtain reply where reply: "ec_recv c 1024 = Recv reply"
    "bytes_printed (snd (echo_client c [message])) = client_lines message reply"
    using echo_client_prints [OF finished] by blast
  then have brought: "prefix reply (bytes_sent (snd (echo_server s)))" "length reply \<le> 1024"
    using assms(2) unfolding brings_def by (metis recv_result.case(1))+
  have "prefix (bytes_sent (snd (echo_server s))) message"
    using prefix_order.trans [OF echo_server_sends_prefix [OF assms(1)] echo_client_sends] by simp
  then have "prefix reply message" using brought(1) prefix_order.trans by blast
  moreover have "reply = message" if "uncut s c message \<and> fst (echo_server s) = 0"
    using that reply(1) echo_client_sends_all [OF finished] echo_server_sends_all [of s message]
    by (simp add: uncut_def)
  ultimately show "\<exists>reply. prefix reply message \<and> length reply \<le> 1024 \<and>
      bytes_printed (snd (echo_client c [message])) = client_lines message reply \<and>
      (uncut s c message \<and> fst (echo_server s) = 0 \<longrightarrow> reply = message)"
    using reply(2) brought(2) by blast
qed (simp_all add: echo_server_releases assms(3) echo_client_releases)

theorem echo_exchange_witness:
  "bytes_printed (snd (echo_client (quiet_client ''hi'') [''hi''])) = client_lines ''hi'' ''hi''"
proof -
  let ?s = "quiet_server ''hi''" and ?c = "quiet_client ''hi''"
  have calls: "brings (es_recv ?s) (bytes_sent (snd (echo_client ?c [''hi''])))"
    "brings (ec_recv ?c) (bytes_sent (snd (echo_server ?s)))" "es_accept ?s \<noteq> es_socket ?s"
    by (simp_all add: brings_def quiet_server_def quiet_client_def echo_client_def echo_server_def Let_def take_is_prefix)
  have "fst (echo_client ?c [''hi'']) = 0 \<and> fst (echo_server ?s) = 0 \<and> uncut ?s ?c ''hi''"
    by (simp add: uncut_def quiet_server_def quiet_client_def echo_client_def echo_server_def Let_def)
  then show ?thesis using echo_exchange [OF calls] by blast
qed

end
