(* ===== verification/Spec2Isabelle.thy ===== *)
theory Spec2Isabelle
  imports Keyspace_Properties Resp_Properties Reply_Types Persistence_Properties Server_Properties
    Serving Durability Delivery Server_Run_Properties Bench_Properties Echo
begin

text \<open>
  A verification development for redis-lite, an in-memory key-value server in C++17: the RESP2
  parser and serializer, the typed keyspace with its commands and lazy expiration, the
  append-only log with its recovery, the event loop that ties them together and the program around
  it; and of the two client programs in the repository, the benchmark and the echo experiments.

  \<^bold>\<open>How the program works.\<close> The event loop (\<open>src/server.cpp\<close>) appends what a client sends to the
  client's input buffer and calls \<open>parse\<close> (\<open>src/resp.cpp\<close>) on it again and again. Each complete
  value goes to \<open>execute_command\<close> (\<open>src/commands.cpp\<close>), which reads and changes the \<open>Store\<close> and
  writes a record of each change to the log (\<open>src/persistence.cpp\<close>); the reply is serialized into
  the client's output buffer. At the start \<open>replay_log\<close> rebuilds the store by executing the
  commands of the log. \<open>run_server\<close> makes the listening socket and the kqueue, hands the ready events
  to the handlers until a signal or an error ends the loop, and closes what is open. The benchmark
  (\<open>benchmarks/bench.cpp\<close>) sends batches of requests with its own encoder and reads the replies with
  the parser of the server.

  \<^bold>\<open>Theories that model code.\<close>
  \<^item> \<open>Prelude\<close>: bytes, the range of \<open>long long\<close>, \<open>string_view::find\<close>.
  \<^item> \<open>Numbers\<close>: \<open>std::to_string\<close>, \<open>std::from_chars\<close>, and \<open>to_integer\<close>, which \<open>resp.cpp\<close> and
    \<open>commands.cpp\<close> both define.
  \<^item> \<open>Resp\<close>: \<open>resp.hpp\<close> and \<open>resp.cpp\<close>: values, \<open>read_line\<close>, \<open>parse_value\<close> with the limit on nesting,
    \<open>parse\<close>, \<open>serialize\<close> and the constructors. The length of a bulk string is computed in 64-bit
    words, as the code does.
  \<^item> \<open>Log_Format\<close>: the writing half of \<open>persistence.cpp\<close>: \<open>log_command\<close>, \<open>log_expire\<close>.
  \<^item> \<open>Store\<close>: \<open>commands.hpp\<close> and the helpers of \<open>commands.cpp\<close> that commands share: lazy expiration,
    the typed accesses, dropping a container that became empty.
  \<^item> \<open>Commands\<close>: one definition per branch of \<open>execute_command\<close>, the dispatch, and the checks of
    the request.
  \<^item> \<open>Replay\<close>: the reading half of \<open>persistence.cpp\<close>: input streams, \<open>read_field\<close>, the body of the
    loop of \<open>replay_log\<close> with every message it can end with, and the loop.
  \<^item> \<open>Sockets\<close>: the results of system calls, the flags of \<open>fcntl\<close> and \<open>kevent\<close>, \<open>set_non_blocking\<close>.
  \<^item> \<open>Server\<close>: the handlers of \<open>server.cpp\<close>: \<open>update_event\<close>, closing, sending, accepting, reading, the
    request loop, one ready event, any list of ready events, start and shutdown; and the reading of
    the arguments of \<open>main.cpp\<close>.
  \<^item> \<open>Server_Run\<close>: \<open>run_server\<close> and \<open>main\<close> from the first call to the exit code. All that comes from the
    system is a record \<open>World\<close>; a turn of the loop is the result of one wait and whether a shutdown
    signal was handled in it.
  \<^item> \<open>Bench\<close>: \<open>benchmarks/bench.cpp\<close>: the encoder, \<open>send_all\<close>, \<open>await_replies\<close>, the loops of the runs,
    the table of benchmarks, the options and \<open>main\<close>.
  \<^item> \<open>Echo\<close>: the two programs of \<open>experiments\<close>, as lists of what they do, with their properties.

  \<^bold>\<open>Specifications and contracts.\<close>
  \<^item> \<open>Keyspace_Spec\<close> says what each command promises, on one entry per key: \<open>spec\<close> maps the live
    entry to the reply, the new entry and the record. \<open>Refinement\<close> shows that each command implements
    it, then the dispatch, then \<open>execute_command\<close>.
  \<^item> \<open>Framing\<close> has the contracts of formats that a receiver splits into values: \<open>codec\<close>, \<open>framing\<close>
    and \<open>framed_codec\<close>. \<open>Resp_Roundtrip\<close> interprets the last one on \<open>parse\<close> and \<open>serialize\<close> as \<open>resp\<close>,
    and the request loop of the server rests on it.
  \<^item> \<open>Machine\<close> has the contracts of what answers requests: \<open>executor\<close> (keeps an invariant),
    \<open>simulation\<close> (implements an abstract machine) and \<open>journal\<close> (its records can be redone).
    \<open>Keyspace_Laws\<close> interprets the first two on \<open>execute_command\<close> as \<open>store\<close> and \<open>keyspace\<close>,
    \<open>Recovery\<close> the third one on \<open>execute_command\<close> and the replay as \<open>aof\<close>.
  \<^item> \<open>Serving\<close> states what the loop is to its clients: \<open>schedule\<close> lists the requests its events execute,
    and the loop does to the store, the log and each client what running this list does.

  \<^bold>\<open>Properties.\<close>
  \<^item> \<open>Resp_Properties\<close>: parsing and serializing are inverse; a verdict is final, a value ends where the
    parser says; the limit on nesting is exact; lengths do not wrap and nothing is read past the end.
  \<^item> \<open>Keyspace_Properties\<close>: refinement for one request and for any list of requests, lazy expiration
    is unobservable, the invariant of the store, other keys are untouched, errors change nothing,
    and the laws of strings, lists, hashes, sets and deadlines.
  \<^item> \<open>Persistence_Properties\<close>: what is written is read back, a log that is cut short is refused, any
    bytes lead to a sound store or to none, recovery restores the running store if no key expired
    and every logged deadline lies behind the end of the replay; and what happens otherwise: a key
    with a renewed deadline is lost, and a list that grew comes back, because the log keeps
    deadlines that were replaced or have passed.
  \<^item> \<open>Reply_Types\<close>: the RESP type of the reply to each command.
  \<^item> \<open>Server_Properties\<close>: requests are answered in order, clients are isolated, a malformed request
    gets its error behind the replies before it and closes its client only; an unknown command
    with a line end in its name splits its reply.
  \<^item> \<open>Serving\<close>: the loop is one sequential server to all its clients. \<open>Durability\<close>: what they changed is
    there after a restart. \<open>Delivery\<close>: what is owed to a client is delivered in the end.
  \<^item> \<open>Server_Run_Properties\<close>: no descriptor is leaked on any path, a signal ends the loop, and the
    invariant of the states a server reaches, by induction over \<open>reachable\<close>, which also keeps the
    clients for which a write registration failed: the code ignores that failure, and only these
    can be owed bytes that nobody will send.
  \<^item> \<open>Bench_Properties\<close>: a batch goes through the server and back; a run returns for every depth from 1 on.

  \<^bold>\<open>Time.\<close> A reading of a clock is an input (\<open>Env\<close>), one for each call a command makes. Time points
  are counts of nanoseconds in an \<open>int\<close>; the invariant shows that no deadline leaves the 64-bit
  range. Results for lists of requests ask that clocks do not go back.

  \<^bold>\<open>Bounds and termination.\<close> There is no fuel. The parser recurses at most 128 levels deep, the
  element loop counts down, the request loop and the replay consume input at every turn. The loops
  over system calls follow the list of the results that the calls give; when it is used up the call
  waits, and a blocking client has the value \<open>None\<close>. The loop of the benchmark need not end and is a
  \<open>partial_function\<close>: that it returns is proved for every depth from 1 on, and that it does not for 0. For
  a negative depth the numbers of the source overflow, which the model does not describe.

  \<^bold>\<open>Not modelled.\<close> The installation of the signal handlers, the console output of the server and of
  the benchmark (that of the echo programs is modelled), failing writes to the log (the code ignores them), the capacity of containers (only the amount \<open>reserve\<close> asks for),
  allocation failure, the signal a send to a reset connection raises, the times the benchmark
  measures, and the subtraction \<open>deadline - unix_now()\<close> of the replay when it leaves the range of
  \<open>long long\<close>, which the model computes exactly. The order in which an unordered container is
  visited is an input. The tests are not part of the programs.
\<close>

end
